theory Spec2Isabelle
  imports Main "HOL-Library.Word" "HOL-Library.Code_Target_Nat"
begin

section \<open>The BPF ELF loader (\<^verbatim>\<open>src/bpf/bpf_load.c\<close>)\<close>

text \<open>
  A shallow embedding of the loader. The C globals, \<^verbatim>\<open>errno\<close>, the sequence of
  calls made to the operating system and the lines printed are the fields of one state
  record, passed through every function. The operating system is a parameter: a function
  that answers a call given the calls made before it. An access outside an array, a
  division by zero and a read of an uninitialised local are undefined in C; the model
  makes each of them a value of type \<open>fault\<close>.
\<close>

subsection \<open>Data\<close>

type_synonym byte = "8 word"

datatype fault = Out_of_bounds | Division_by_zero | Uninitialized | Unmodelled_cast

text \<open>\<^verbatim>\<open>struct bpf_insn\<close> of \<^verbatim>\<open>linux/bpf.h\<close>.\<close>

record bpf_insn =
  code :: "8 word"
  dst_reg :: "4 word"
  src_reg :: "4 word"
  off :: int
  imm :: int

text \<open>\<^verbatim>\<open>struct bpf_map_def\<close>: the five fields that \<^verbatim>\<open>load_maps\<close> reads.\<close>

record bpf_map_def =
  type :: nat
  key_size :: nat
  value_size :: nat
  max_entries :: nat
  map_flags :: nat

record GElf_Rel =
  r_offset :: nat
  r_info :: nat

record GElf_Sym =
  st_name :: nat
  st_value :: nat

record GElf_Shdr =
  sh_type :: nat
  sh_size :: nat
  sh_info :: nat
  sh_entsize :: nat

text \<open>
  The buffer of a section, typed the way the loader reads it: as characters
  (\<^verbatim>\<open>license\<close>, \<^verbatim>\<open>version\<close>), as an array of instructions, as an array of map
  definitions, or through \<^verbatim>\<open>gelf_getrel\<close> and \<^verbatim>\<open>gelf_getsym\<close>. \<open>d_size\<close> is the
  byte count libelf reports for it.
\<close>

datatype d_buf =
    Chars "byte list"
  | Insns "bpf_insn list"
  | Map_defs "bpf_map_def list"
  | Rels "GElf_Rel list"
  | Syms "GElf_Sym list"

record Elf_Data =
  d_buf :: d_buf
  d_size :: nat

text \<open>
  A section as \<^verbatim>\<open>get_sec\<close> sees it: its header when \<^verbatim>\<open>gelf_getshdr\<close> succeeds, its name
  when \<^verbatim>\<open>elf_strptr\<close> finds one, and its data when \<^verbatim>\<open>elf_getdata\<close> returns exactly
  one block.
\<close>

record Elf_Scn =
  scn_shdr :: "GElf_Shdr option"
  scn_name :: "string option"
  scn_data :: "Elf_Data option"

record Elf =
  e_shnum :: "nat option"
  scns :: "Elf_Scn list"

record rlimit =
  rlim_cur :: nat
  rlim_max :: nat

record perf_event_attr =
  attr_type :: nat
  sample_type :: nat
  sample_period :: nat
  wakeup_events :: nat
  config :: nat

datatype ioctl_req = PERF_EVENT_IOC_ENABLE | PERF_EVENT_IOC_SET_BPF

text \<open>The calls the loader makes to the operating system, with their arguments.\<close>

datatype call =
    Bpf_create_map nat nat nat nat nat
  | Bpf_prog_load nat "bpf_insn list" int "byte list" int
  | Getrlimit nat
  | Setrlimit nat rlimit
  | System string
  | Open_rdonly string
  | Read_fd int nat
  | Close_fd int
  | Perf_event_open perf_event_attr int int int nat
  | Ioctl int ioctl_req int

text \<open>
  The answer to a call: the value returned, the \<^verbatim>\<open>errno\<close> it leaves when that value is
  negative, and the bytes a \<^verbatim>\<open>read\<close> delivers.
\<close>

record reply =
  ret :: int
  err :: int
  rdata :: string

type_synonym kernel = "call list \<Rightarrow> call \<Rightarrow> reply"

text \<open>The lines the loader prints, one constructor for each \<^verbatim>\<open>printf\<close>.\<close>

datatype msg =
    Unknown_event string
  | Prog_load_err_retry int
  | Setrlimit_failed int
  | Prog_load_err int
  | Event_name_empty
  | Failed_create_kprobe string int
  | Failed_open_event string
  | Read_failed string int
  | Event_open_failed int int int
  | Failed_create_map int
  | Invalid_relo nat "8 word"
  | Invalid_version_size nat

text \<open>The second and the third loop of \<^verbatim>\<open>load_bpf_file\<close>.\<close>

datatype pass = Relo_pass | Residual_pass

text \<open>
  The globals of the file, then \<^verbatim>\<open>errno\<close>, the calls made so far and the lines printed
  so far. \<open>loaded_secs\<close> is a history variable that the source does not have: the loop
  and the index of every section handed to \<^verbatim>\<open>load_and_attach\<close>, in order.
\<close>

record state =
  license :: "byte list"
  kern_version :: int
  processed_sec :: "bool list"
  map_fd :: "int list"
  prog_fd :: "int list"
  event_fd :: "int list"
  prog_cnt :: nat
  prog_array_fd :: int
  errno :: int
  trace :: "call list"
  out :: "msg list"
  loaded_secs :: "(pass \<times> nat) list"

definition init_state :: state where
  "init_state =
     \<lparr>license = replicate 128 0, kern_version = 0, processed_sec = replicate 128 False,
      map_fd = replicate 32 0, prog_fd = replicate 32 0, event_fd = replicate 32 0,
      prog_cnt = 0, prog_array_fd = - 1, errno = 0, trace = [], out = [], loaded_secs = []\<rparr>"

subsection \<open>Constants of the system headers\<close>

definition EPERM :: int where "EPERM = 1"
definition ERANGE :: int where "ERANGE = 34"
definition RLIMIT_MEMLOCK :: nat where "RLIMIT_MEMLOCK = 8"
definition RLIM_INFINITY :: nat where "RLIM_INFINITY = 2 ^ 64 - 1"
definition BPF_PROG_TYPE_KPROBE :: nat where "BPF_PROG_TYPE_KPROBE = 2"
definition BPF_MAP_TYPE_PROG_ARRAY :: nat where "BPF_MAP_TYPE_PROG_ARRAY = 3"
definition BPF_LD_IMM_DW :: "8 word" where "BPF_LD_IMM_DW = 0x18"
definition BPF_PSEUDO_MAP_FD :: "4 word" where "BPF_PSEUDO_MAP_FD = 1"
definition SHT_SYMTAB :: nat where "SHT_SYMTAB = 2"
definition SHT_REL :: nat where "SHT_REL = 9"
definition PERF_TYPE_TRACEPOINT :: nat where "PERF_TYPE_TRACEPOINT = 2"
definition PERF_SAMPLE_RAW :: nat where "PERF_SAMPLE_RAW = 1024"
definition sizeof_bpf_insn :: nat where "sizeof_bpf_insn = 8"
definition DEBUGFS :: string where "DEBUGFS = ''/sys/kernel/debug/tracing/''"

subsection \<open>Arrays, integer conversions, system calls\<close>

definition fetch :: "'a list \<Rightarrow> nat \<Rightarrow> fault + 'a" where
  "fetch xs i = (if i < length xs then Inr (xs ! i) else Inl Out_of_bounds)"

definition store :: "'a list \<Rightarrow> nat \<Rightarrow> 'a \<Rightarrow> fault + 'a list" where
  "store xs i v = (if i < length xs then Inr (xs[i := v]) else Inl Out_of_bounds)"

text \<open>The conversion of a \<^verbatim>\<open>size_t\<close> to \<^verbatim>\<open>int\<close>: the low 32 bits, read as signed.\<close>

definition to_int :: "nat \<Rightarrow> int" where
  "to_int n = (let m = int (n mod 2 ^ 32) in if m < 2 ^ 31 then m else m - 2 ^ 32)"

text \<open>The conversion of an \<^verbatim>\<open>int\<close> to \<^verbatim>\<open>size_t\<close> (64 bits).\<close>

definition to_size_t :: "int \<Rightarrow> nat" where
  "to_size_t v = nat (v mod 2 ^ 64)"

text \<open>The conversion of a \<^verbatim>\<open>long\<close> to \<^verbatim>\<open>int\<close>: the low 32 bits, read as signed.\<close>

definition long_to_int :: "int \<Rightarrow> int" where
  "long_to_int v = (let m = v mod 2 ^ 32 in if m < 2 ^ 31 then m else m - 2 ^ 32)"

text \<open>The conversion of an \<^verbatim>\<open>int\<close> to \<^verbatim>\<open>__u64\<close>.\<close>

definition to_u64 :: "int \<Rightarrow> nat" where
  "to_u64 v = nat (v mod 2 ^ 64)"

text \<open>
  A call is answered from the calls before it, is added to the trace, and leaves its
  \<^verbatim>\<open>errno\<close> when it fails.
\<close>

definition sys :: "kernel \<Rightarrow> call \<Rightarrow> state \<Rightarrow> reply \<times> state" where
  "sys k c st =
     (let r = k (trace st) c
      in (r, st\<lparr>errno := (if ret r < 0 then err r else errno st), trace := trace st @ [c]\<rparr>))"

definition bpf_create_map ::
  "kernel \<Rightarrow> nat \<Rightarrow> nat \<Rightarrow> nat \<Rightarrow> nat \<Rightarrow> nat \<Rightarrow> state \<Rightarrow> int \<times> state" where
  "bpf_create_map k t ks vs me fl st =
     (let (r, st') = sys k (Bpf_create_map t ks vs me fl) st in (ret r, st'))"

definition bpf_prog_load ::
  "kernel \<Rightarrow> nat \<Rightarrow> bpf_insn list \<Rightarrow> int \<Rightarrow> byte list \<Rightarrow> int \<Rightarrow> state \<Rightarrow> int \<times> state" where
  "bpf_prog_load k t prog sz lic ver st =
     (let (r, st') = sys k (Bpf_prog_load t prog sz lic ver) st in (ret r, st'))"

subsection \<open>\<^verbatim>\<open>load_maps\<close>\<close>

text \<open>
  The loop body for the indices still to run. \<open>maps\<close> is the buffer read as an array of
  definitions; a read beyond it and a write beyond \<^verbatim>\<open>map_fd\<close> are faults.
\<close>

fun load_maps_loop ::
  "kernel \<Rightarrow> bpf_map_def list \<Rightarrow> nat list \<Rightarrow> state \<Rightarrow> fault + (int \<times> state)" where
  "load_maps_loop k maps [] st = Inr (0, st)"
| "load_maps_loop k maps (i # rest) st =
     (case fetch maps i of
        Inl f \<Rightarrow> Inl f
      | Inr m \<Rightarrow>
          (let (fd, st1) =
                 bpf_create_map k (type m) (key_size m) (value_size m) (max_entries m)
                   (map_flags m) st
           in case store (map_fd st1) i fd of
                Inl f \<Rightarrow> Inl f
              | Inr fds \<Rightarrow>
                  (let st2 = st1\<lparr>map_fd := fds\<rparr>
                   in if fd < 0
                      then Inr (1, st2\<lparr>out := out st2 @ [Failed_create_map (errno st2)]\<rparr>)
                      else load_maps_loop k maps rest
                             (if type m = BPF_MAP_TYPE_PROG_ARRAY
                              then st2\<lparr>prog_array_fd := fd\<rparr> else st2))))"

text \<open>
  \<open>msz\<close> is \<^verbatim>\<open>sizeof(struct bpf_map_def)\<close>, a constant of \<^verbatim>\<open>bpf_helpers.h\<close>. The bound of the
  loop is \<^verbatim>\<open>len / sizeof(struct bpf_map_def)\<close>, computed in \<^verbatim>\<open>size_t\<close>.
\<close>

definition nr_maps :: "nat \<Rightarrow> int \<Rightarrow> nat" where
  "nr_maps msz len = to_size_t len div msz"

definition load_maps ::
  "nat \<Rightarrow> kernel \<Rightarrow> bpf_map_def list \<Rightarrow> int \<Rightarrow> state \<Rightarrow> fault + (int \<times> state)" where
  "load_maps msz k maps len st = load_maps_loop k maps [0..<nr_maps msz len] st"

subsection \<open>\<^verbatim>\<open>get_sec\<close>\<close>

text \<open>The four failure codes of the source are the \<open>Inl\<close> values.\<close>

definition get_sec :: "Elf \<Rightarrow> nat \<Rightarrow> int + (string \<times> GElf_Shdr \<times> Elf_Data)" where
  "get_sec elf i =
     (if \<not> i < length (scns elf) then Inl 1
      else case scn_shdr (scns elf ! i) of
             None \<Rightarrow> Inl 2
           | Some shdr \<Rightarrow>
               (case scn_name (scns elf ! i) of
                  None \<Rightarrow> Inl 3
                | Some shname \<Rightarrow>
                    if sh_size shdr = 0 then Inl 3
                    else (case scn_data (scns elf ! i) of
                            None \<Rightarrow> Inl 4
                          | Some data \<Rightarrow> Inr (shname, shdr, data))))"

subsection \<open>\<^verbatim>\<open>parse_relo_and_apply\<close>\<close>

definition gelf_getrel :: "Elf_Data \<Rightarrow> nat \<Rightarrow> GElf_Rel option" where
  "gelf_getrel data i =
     (case d_buf data of
        Rels rs \<Rightarrow> if i < length rs then Some (rs ! i) else None
      | _ \<Rightarrow> None)"

definition gelf_getsym :: "Elf_Data option \<Rightarrow> nat \<Rightarrow> GElf_Sym option" where
  "gelf_getsym symbols ndx =
     (case symbols of
        None \<Rightarrow> None
      | Some data \<Rightarrow>
          (case d_buf data of
             Syms ss \<Rightarrow> if ndx < length ss then Some (ss ! ndx) else None
           | _ \<Rightarrow> None))"

definition GELF_R_SYM :: "nat \<Rightarrow> nat" where
  "GELF_R_SYM info = info div 2 ^ 32"

text \<open>\<^verbatim>\<open>insn_idx = rel.r_offset / sizeof(struct bpf_insn)\<close>, an \<^verbatim>\<open>unsigned int\<close>.\<close>

definition insn_idx_of :: "GElf_Rel \<Rightarrow> nat" where
  "insn_idx_of rel = (r_offset rel div sizeof_bpf_insn) mod 2 ^ 32"

text \<open>The index into \<^verbatim>\<open>map_fd\<close>: \<^verbatim>\<open>sym.st_value / sizeof(struct bpf_map_def)\<close>.\<close>

definition map_idx_of :: "nat \<Rightarrow> GElf_Sym \<Rightarrow> nat" where
  "map_idx_of msz sy = st_value sy div msz"

text \<open>
  The loop over the relocation entries still to run. When \<^verbatim>\<open>gelf_getrel\<close> or
  \<^verbatim>\<open>gelf_getsym\<close> fails the source goes on with the local it did not fill; the model
  faults where that local is first read.
\<close>

fun relo_loop ::
  "nat \<Rightarrow> Elf_Data \<Rightarrow> Elf_Data option \<Rightarrow> nat list \<Rightarrow> bpf_insn list \<Rightarrow> state
     \<Rightarrow> fault + (int \<times> bpf_insn list \<times> state)" where
  "relo_loop msz data symbols [] insn st = Inr (0, insn, st)"
| "relo_loop msz data symbols (i # rest) insn st =
     (case gelf_getrel data i of
        None \<Rightarrow> Inl Uninitialized
      | Some rel \<Rightarrow>
          (case fetch insn (insn_idx_of rel) of
             Inl f \<Rightarrow> Inl f
           | Inr ins \<Rightarrow>
               if code ins \<noteq> BPF_LD_IMM_DW
               then Inr (1, insn, st\<lparr>out := out st @ [Invalid_relo (insn_idx_of rel) (code ins)]\<rparr>)
               else (case gelf_getsym symbols (GELF_R_SYM (r_info rel)) of
                       None \<Rightarrow> Inl Uninitialized
                     | Some sy \<Rightarrow>
                         (case fetch (map_fd st) (map_idx_of msz sy) of
                            Inl f \<Rightarrow> Inl f
                          | Inr fd \<Rightarrow>
                              relo_loop msz data symbols rest
                                (insn[insn_idx_of rel :=
                                        ins\<lparr>src_reg := BPF_PSEUDO_MAP_FD, imm := fd\<rparr>])
                                st))))"

text \<open>\<^verbatim>\<open>nrels = shdr->sh_size / shdr->sh_entsize\<close>, stored in an \<^verbatim>\<open>int\<close>.\<close>

definition nrels_of :: "GElf_Shdr \<Rightarrow> nat" where
  "nrels_of shdr = nat (to_int (sh_size shdr div sh_entsize shdr))"

definition parse_relo_and_apply ::
  "nat \<Rightarrow> Elf_Data \<Rightarrow> Elf_Data option \<Rightarrow> GElf_Shdr \<Rightarrow> bpf_insn list \<Rightarrow> state
     \<Rightarrow> fault + (int \<times> bpf_insn list \<times> state)" where
  "parse_relo_and_apply msz data symbols shdr insn st =
     (if sh_entsize shdr = 0 then Inl Division_by_zero
      else relo_loop msz data symbols [0..<nrels_of shdr] insn st)"

subsection \<open>\<^verbatim>\<open>load_and_attach\<close>\<close>

text \<open>
  \<^verbatim>\<open>strncmp(event, lit, n) == 0\<close> and \<^verbatim>\<open>memcmp(shname, lit, n) == 0\<close>, where \<open>n\<close> is the
  length of the literal and the literal holds no NUL.
\<close>

definition has_prefix :: "string \<Rightarrow> string \<Rightarrow> bool" where
  "has_prefix lit s = (take (length lit) s = lit)"

definition isspace :: "char \<Rightarrow> bool" where
  "isspace c = ((of_char c :: nat) = 32 \<or> (9 \<le> (of_char c :: nat) \<and> (of_char c :: nat) \<le> 13))"

fun digits_val :: "string \<Rightarrow> int \<Rightarrow> int" where
  "digits_val [] acc = acc"
| "digits_val (c # cs) acc =
     (if 48 \<le> (of_char c :: nat) \<and> (of_char c :: nat) \<le> 57
      then digits_val cs (10 * acc + (int (of_char c) - 48)) else acc)"

text \<open>
  \<^verbatim>\<open>atoi\<close> of the GNU C library is \<^verbatim>\<open>(int) strtol(nptr, NULL, 10)\<close>. \<open>strtol\<close> reads
  white space, a sign and decimal digits; a value outside \<^verbatim>\<open>long\<close> (64 bits) becomes
  \<^verbatim>\<open>LONG_MAX\<close> or \<^verbatim>\<open>LONG_MIN\<close> and leaves \<^verbatim>\<open>ERANGE\<close> in \<^verbatim>\<open>errno\<close>. The second
  component of \<open>strtol\<close> tells whether that happened.
\<close>

definition strtol :: "string \<Rightarrow> int \<times> bool" where
  "strtol s =
     (let v = (case dropWhile isspace s of
                 [] \<Rightarrow> 0
               | c # cs \<Rightarrow>
                   if c = CHR ''-'' then - digits_val cs 0
                   else if c = CHR ''+'' then digits_val cs 0
                   else digits_val (c # cs) 0)
      in if 2 ^ 63 - 1 < v then (2 ^ 63 - 1, True)
         else if v < - (2 ^ 63) then (- (2 ^ 63), True)
         else (v, False))"

definition atoi :: "string \<Rightarrow> state \<Rightarrow> int \<times> state" where
  "atoi s st =
     (let (v, ovf) = strtol s
      in (long_to_int v, if ovf then st\<lparr>errno := ERANGE\<rparr> else st))"

text \<open>
  Lines 59 to 88: the submission and its one retry. \<open>Inl v\<close> is \<^verbatim>\<open>return v\<close>; \<open>Inr fd\<close> is
  the descriptor the function goes on with.
\<close>

definition prog_load_retry ::
  "kernel \<Rightarrow> nat \<Rightarrow> bpf_insn list \<Rightarrow> int \<Rightarrow> state \<Rightarrow> (int + int) \<times> state" where
  "prog_load_retry k prog_type prog sz st =
     (let (fd, st1) = bpf_prog_load k prog_type prog sz (license st) (kern_version st) st;
          (r, st5) =
            (if fd < 0 \<and> errno st1 = EPERM
             then (let st2 = st1\<lparr>out := out st1 @ [Prog_load_err_retry (errno st1)]\<rparr>;
                       (g, st3) = sys k (Getrlimit RLIMIT_MEMLOCK) st2
                   in if ret g = 0
                      then (let rl = \<lparr>rlim_cur = RLIM_INFINITY, rlim_max = RLIM_INFINITY\<rparr>;
                                (s, st4) = sys k (Setrlimit RLIMIT_MEMLOCK rl) st3
                            in if ret s = 0
                               then (let (fd2, st') =
                                           bpf_prog_load k prog_type prog sz (license st4)
                                             (kern_version st4) st4
                                     in (Inr fd2, st'))
                               else (Inl (- 1),
                                     st4\<lparr>out := out st4 @ [Setrlimit_failed (errno st4)]\<rparr>))
                      else (Inr fd, st3))
             else (Inr fd, st1))
      in case r of
           Inl v \<Rightarrow> (Inl v, st5)
         | Inr fd' \<Rightarrow>
             if fd' < 0 then (Inl (- 1), st5\<lparr>out := out st5 @ [Prog_load_err (errno st5)]\<rparr>)
             else (Inr fd', st5))"

text \<open>
  Lines 95 to 137: the name after its prefix, the registration of the probe and the path
  of its identifier file in \<^verbatim>\<open>buf[256]\<close>. \<open>Inr (buf, event)\<close> are the buffer and the
  advanced \<^verbatim>\<open>event\<close> pointer the function goes on with.
\<close>

definition kprobe_cmd :: "char \<Rightarrow> string \<Rightarrow> string" where
  "kprobe_cmd c event =
     take 255 (''echo '' @ [CHR 0x27, c] @ '':'' @ [c] @ event @ '' '' @ event @ [CHR 0x27]
               @ '' >> /sys/kernel/debug/tracing/kprobe_events'')"

definition probe_path ::
  "kernel \<Rightarrow> bool \<Rightarrow> bool \<Rightarrow> bool \<Rightarrow> string \<Rightarrow> state
     \<Rightarrow> fault + ((int + string \<times> string) \<times> state)" where
  "probe_path k is_kprobe is_kretprobe is_tracepoint event0 st =
     (if is_kprobe \<or> is_kretprobe
      then (let event = (if is_kprobe then drop 7 event0 else drop 10 event0)
            in if event = []
               then Inr (Inl (- 1), st\<lparr>out := out st @ [Event_name_empty]\<rparr>)
               else (let c = (if is_kprobe then CHR ''p'' else CHR ''r'');
                         (r, st1) = sys k (System (kprobe_cmd c event)) st
                     in if ret r < 0
                        then Inr (Inl (- 1),
                                  st1\<lparr>out := out st1 @ [Failed_create_kprobe event (errno st1)]\<rparr>)
                        else (let buf = DEBUGFS @ ''events/kprobes/'' @ [c] @ event @ ''/id''
                              in if length buf < 256 then Inr (Inr (buf, event), st1)
                                 else Inl Out_of_bounds)))
      else if is_tracepoint
      then (let event = drop 11 event0
            in if event = []
               then Inr (Inl (- 1), st\<lparr>out := out st @ [Event_name_empty]\<rparr>)
               else (let buf = DEBUGFS @ ''events/'' @ event @ ''/id''
                     in if length buf < 256 then Inr (Inr (buf, event), st)
                        else Inl Out_of_bounds))
      else Inl Uninitialized)"

text \<open>
  Lines 139 to 166: the identifier is read and the counter opened, enabled and bound.
  \<^verbatim>\<open>id\<close> is an \<^verbatim>\<open>int\<close> and \<^verbatim>\<open>attr.config\<close> a \<^verbatim>\<open>__u64\<close>.
\<close>

definition open_and_bind ::
  "kernel \<Rightarrow> perf_event_attr \<Rightarrow> string \<Rightarrow> string \<Rightarrow> int \<Rightarrow> state \<Rightarrow> fault + (int \<times> state)" where
  "open_and_bind k attr buf event fd st =
     (let (r1, st1) = sys k (Open_rdonly buf) st
      in if ret r1 < 0 then Inr (- 1, st1\<lparr>out := out st1 @ [Failed_open_event event]\<rparr>)
         else (let (r2, st2) = sys k (Read_fd (ret r1) 256) st1
               in if ret r2 < 0 \<or> ret r2 \<ge> 256
                  then Inr (- 1, st2\<lparr>out := out st2 @ [Read_failed event (errno st2)]\<rparr>)
                  else (let (r3, st3) = sys k (Close_fd (ret r1)) st2;
                            (idn, st3') = atoi (take (nat (ret r2)) (rdata r2)) st3;
                            (r4, st4) =
                              sys k (Perf_event_open (attr\<lparr>config := to_u64 idn\<rparr>)
                                       (- 1) 0 (- 1) 0) st3'
                        in if ret r4 < 0
                           then Inr (- 1,
                                     st4\<lparr>out := out st4
                                              @ [Event_open_failed idn (ret r4) (errno st4)]\<rparr>)
                           else (case store (event_fd st4) (prog_cnt st4 - 1) (ret r4) of
                                   Inl f \<Rightarrow> Inl f
                                 | Inr efds \<Rightarrow>
                                     (let st5 = st4\<lparr>event_fd := efds\<rparr>;
                                          (r6, st6) =
                                            sys k (Ioctl (ret r4) PERF_EVENT_IOC_ENABLE 0) st5;
                                          (r7, st7) =
                                            sys k (Ioctl (ret r4) PERF_EVENT_IOC_SET_BPF fd) st6
                                      in Inr (0, st7))))))"

text \<open>Lines 45 to 50: \<^verbatim>\<open>attr\<close> as the function sets it up.\<close>

definition initial_attr :: perf_event_attr where
  "initial_attr =
     \<lparr>attr_type = PERF_TYPE_TRACEPOINT, sample_type = PERF_SAMPLE_RAW,
      sample_period = 1, wakeup_events = 1, config = 0\<rparr>"

definition load_and_attach ::
  "kernel \<Rightarrow> string \<Rightarrow> bpf_insn list \<Rightarrow> int \<Rightarrow> state \<Rightarrow> fault + (int \<times> state)" where
  "load_and_attach k event prog sz st =
     (let is_kprobe = has_prefix ''kprobe/'' event;
          is_kretprobe = has_prefix ''kretprobe/'' event;
          is_tracepoint = has_prefix ''tracepoint/'' event;
          is_xdp = has_prefix ''xdp'' event;
          is_perf_event = has_prefix ''perf_event'' event;
          attr = initial_attr
      in if \<not> (is_kprobe \<or> is_kretprobe)
         then Inr (- 1, st\<lparr>out := out st @ [Unknown_event event]\<rparr>)
         else (case prog_load_retry k BPF_PROG_TYPE_KPROBE prog sz st of
                 (Inl v, st1) \<Rightarrow> Inr (v, st1)
               | (Inr fd, st1) \<Rightarrow>
                   (case store (prog_fd st1) (prog_cnt st1) fd of
                      Inl f \<Rightarrow> Inl f
                    | Inr fds \<Rightarrow>
                        (let st2 = st1\<lparr>prog_fd := fds, prog_cnt := prog_cnt st1 + 1\<rparr>
                         in if is_xdp \<or> is_perf_event then Inr (0, st2)
                            else (case probe_path k is_kprobe is_kretprobe is_tracepoint event st2 of
                                    Inl f \<Rightarrow> Inl f
                                  | Inr (Inl v, st3) \<Rightarrow> Inr (v, st3)
                                  | Inr (Inr (buf, event1), st3) \<Rightarrow>
                                      open_and_bind k attr buf event1 fd st3)))))"

subsection \<open>\<^verbatim>\<open>load_bpf_file\<close>\<close>

definition mark_processed :: "nat \<Rightarrow> state \<Rightarrow> fault + state" where
  "mark_processed i st =
     (case store (processed_sec st) i True of
        Inl f \<Rightarrow> Inl f
      | Inr ps \<Rightarrow> Inr (st\<lparr>processed_sec := ps\<rparr>))"

text \<open>The casts of \<^verbatim>\<open>d_buf\<close>. A buffer read as something it is not typed as is outside the model.\<close>

definition chars_of :: "Elf_Data \<Rightarrow> fault + byte list" where
  "chars_of data = (case d_buf data of Chars bs \<Rightarrow> Inr bs | _ \<Rightarrow> Inl Unmodelled_cast)"

definition insns_of :: "Elf_Data \<Rightarrow> fault + bpf_insn list" where
  "insns_of data = (case d_buf data of Insns xs \<Rightarrow> Inr xs | _ \<Rightarrow> Inl Unmodelled_cast)"

definition map_defs_of :: "Elf_Data \<Rightarrow> fault + bpf_map_def list" where
  "map_defs_of data = (case d_buf data of Map_defs ms \<Rightarrow> Inr ms | _ \<Rightarrow> Inl Unmodelled_cast)"

text \<open>\<^verbatim>\<open>memcpy(license, data->d_buf, data->d_size)\<close> into \<^verbatim>\<open>char license[128]\<close>.\<close>

definition memcpy_license :: "Elf_Data \<Rightarrow> state \<Rightarrow> fault + state" where
  "memcpy_license data st =
     (case chars_of data of
        Inl f \<Rightarrow> Inl f
      | Inr bs \<Rightarrow>
          if length bs < d_size data \<or> length (license st) < d_size data then Inl Out_of_bounds
          else Inr (st\<lparr>license := take (d_size data) bs @ drop (d_size data) (license st)\<rparr>))"

text \<open>\<^verbatim>\<open>memcpy(&kern_version, data->d_buf, sizeof(int))\<close>, little-endian.\<close>

definition le_int :: "byte list \<Rightarrow> int" where
  "le_int bs = to_int (foldr (\<lambda>b a. unat b + 256 * a) bs 0)"

definition memcpy_version :: "Elf_Data \<Rightarrow> state \<Rightarrow> fault + state" where
  "memcpy_version data st =
     (case chars_of data of
        Inl f \<Rightarrow> Inl f
      | Inr bs \<Rightarrow>
          if length bs < 4 then Inl Out_of_bounds
          else Inr (st\<lparr>kern_version := le_int (take 4 bs)\<rparr>))"

text \<open>
  What one round of a loop of \<^verbatim>\<open>load_bpf_file\<close> leads to: \<^verbatim>\<open>return v\<close>, or the next
  round.
\<close>

datatype 'a step = Return int 'a | Next 'a

text \<open>The first loop, lines 273 to 301: one section.\<close>

definition scan_section ::
  "nat \<Rightarrow> kernel \<Rightarrow> Elf \<Rightarrow> nat \<Rightarrow> Elf_Data option \<times> state
     \<Rightarrow> fault + (Elf_Data option \<times> state) step" where
  "scan_section msz k elf i ss =
     (case ss of (symbols, st) \<Rightarrow>
        (case get_sec elf i of
           Inl e \<Rightarrow> Inr (Next (symbols, st))
         | Inr (shname, shdr, data) \<Rightarrow>
             if shname = ''license''
             then (case mark_processed i st of
                     Inl f \<Rightarrow> Inl f
                   | Inr st1 \<Rightarrow>
                       (case memcpy_license data st1 of
                          Inl f \<Rightarrow> Inl f
                        | Inr st2 \<Rightarrow> Inr (Next (symbols, st2))))
             else if shname = ''version''
             then (case mark_processed i st of
                     Inl f \<Rightarrow> Inl f
                   | Inr st1 \<Rightarrow>
                       if d_size data \<noteq> 4
                       then Inr (Return 1
                                  (symbols,
                                   st1\<lparr>out := out st1 @ [Invalid_version_size (d_size data)]\<rparr>))
                       else (case memcpy_version data st1 of
                               Inl f \<Rightarrow> Inl f
                             | Inr st2 \<Rightarrow> Inr (Next (symbols, st2))))
             else if shname = ''maps''
             then (case mark_processed i st of
                     Inl f \<Rightarrow> Inl f
                   | Inr st1 \<Rightarrow>
                       (case map_defs_of data of
                          Inl f \<Rightarrow> Inl f
                        | Inr maps \<Rightarrow>
                            (case load_maps msz k maps (to_int (d_size data)) st1 of
                               Inl f \<Rightarrow> Inl f
                             | Inr (r, st2) \<Rightarrow>
                                 if r \<noteq> 0 then Inr (Return 1 (symbols, st2))
                                 else Inr (Next (symbols, st2)))))
             else if sh_type shdr = SHT_SYMTAB then Inr (Next (Some data, st))
             else Inr (Next (symbols, st))))"

fun scan_sections ::
  "nat \<Rightarrow> kernel \<Rightarrow> Elf \<Rightarrow> nat list \<Rightarrow> Elf_Data option \<times> state
     \<Rightarrow> fault + (Elf_Data option \<times> state) step" where
  "scan_sections msz k elf [] ss = Inr (Next ss)"
| "scan_sections msz k elf (i # rest) ss =
     (case scan_section msz k elf i ss of
        Inl f \<Rightarrow> Inl f
      | Inr (Return v ss') \<Rightarrow> Inr (Return v ss')
      | Inr (Next ss') \<Rightarrow> scan_sections msz k elf rest ss')"

text \<open>The six names under which a section is handed to \<^verbatim>\<open>load_and_attach\<close>.\<close>

definition is_prog_name :: "string \<Rightarrow> bool" where
  "is_prog_name shname =
     (has_prefix ''kprobe/'' shname \<or> has_prefix ''kretprobe/'' shname
      \<or> has_prefix ''tracepoint/'' shname \<or> has_prefix ''xdp'' shname
      \<or> has_prefix ''perf_event'' shname \<or> has_prefix ''socket'' shname)"

text \<open>
  \<^verbatim>\<open>parse_relo_and_apply\<close> writes into the buffer of the program section, which the
  object keeps: the patched instructions replace the old ones there.
\<close>

definition set_insns :: "Elf \<Rightarrow> nat \<Rightarrow> bpf_insn list \<Rightarrow> Elf" where
  "set_insns elf j insns =
     elf\<lparr>scns := (scns elf)
            [j := (scns elf ! j)
                    \<lparr>scn_data := map_option (\<lambda>d. d\<lparr>d_buf := Insns insns\<rparr>)
                                  (scn_data (scns elf ! j))\<rparr>]\<rparr>"

text \<open>The second loop, lines 304 to 331: one section. This loop has no \<^verbatim>\<open>return\<close>.\<close>

definition relo_section ::
  "nat \<Rightarrow> kernel \<Rightarrow> Elf_Data option \<Rightarrow> nat \<Rightarrow> Elf \<times> state \<Rightarrow> fault + (Elf \<times> state)" where
  "relo_section msz k symbols i es =
     (case es of (elf, st) \<Rightarrow>
        (case get_sec elf i of
           Inl e \<Rightarrow> Inr (elf, st)
         | Inr (shname, shdr, data) \<Rightarrow>
             if sh_type shdr = SHT_REL
             then (case get_sec elf (sh_info shdr) of
                     Inl e \<Rightarrow> Inr (elf, st)
                   | Inr (shname_prog, shdr_prog, data_prog) \<Rightarrow>
                       (case insns_of data_prog of
                          Inl f \<Rightarrow> Inl f
                        | Inr insns \<Rightarrow>
                       (case mark_processed (sh_info shdr) st of
                          Inl f \<Rightarrow> Inl f
                        | Inr st1 \<Rightarrow>
                       (case mark_processed i st1 of
                          Inl f \<Rightarrow> Inl f
                        | Inr st2 \<Rightarrow>
                       (case parse_relo_and_apply msz data symbols shdr insns st2 of
                          Inl f \<Rightarrow> Inl f
                        | Inr (r, insns', st3) \<Rightarrow>
                            (let elf' = set_insns elf (sh_info shdr) insns'
                             in if r \<noteq> 0 then Inr (elf', st3)
                                else if is_prog_name shname_prog
                                then (case load_and_attach k shname_prog insns'
                                             (to_int (d_size data_prog))
                                             (st3\<lparr>loaded_secs :=
                                                    loaded_secs st3 @ [(Relo_pass, sh_info shdr)]\<rparr>) of
                                        Inl f \<Rightarrow> Inl f
                                      | Inr (v, st4) \<Rightarrow> Inr (elf', st4))
                                else Inr (elf', st3)))))))
             else Inr (elf, st)))"

fun relo_sections ::
  "nat \<Rightarrow> kernel \<Rightarrow> Elf_Data option \<Rightarrow> nat list \<Rightarrow> Elf \<times> state \<Rightarrow> fault + (Elf \<times> state)" where
  "relo_sections msz k symbols [] es = Inr es"
| "relo_sections msz k symbols (i # rest) es =
     (case relo_section msz k symbols i es of
        Inl f \<Rightarrow> Inl f
      | Inr es' \<Rightarrow> relo_sections msz k symbols rest es')"

text \<open>The third loop, lines 334 to 349: one section. This loop has no \<^verbatim>\<open>return\<close> either.\<close>

definition residual_section :: "kernel \<Rightarrow> Elf \<Rightarrow> nat \<Rightarrow> state \<Rightarrow> fault + state" where
  "residual_section k elf i st =
     (case fetch (processed_sec st) i of
        Inl f \<Rightarrow> Inl f
      | Inr p \<Rightarrow>
          if p then Inr st
          else (case get_sec elf i of
                  Inl e \<Rightarrow> Inr st
                | Inr (shname, shdr, data) \<Rightarrow>
                    if is_prog_name shname
                    then (case insns_of data of
                            Inl f \<Rightarrow> Inl f
                          | Inr insns \<Rightarrow>
                              (case load_and_attach k shname insns (to_int (d_size data))
                                     (st\<lparr>loaded_secs := loaded_secs st @ [(Residual_pass, i)]\<rparr>) of
                                 Inl f \<Rightarrow> Inl f
                               | Inr (v, st') \<Rightarrow> Inr st'))
                    else Inr st))"

fun residual_sections :: "kernel \<Rightarrow> Elf \<Rightarrow> nat list \<Rightarrow> state \<Rightarrow> fault + state" where
  "residual_sections k elf [] st = Inr st"
| "residual_sections k elf (i # rest) st =
     (case residual_section k elf i st of
        Inl f \<Rightarrow> Inl f
      | Inr st' \<Rightarrow> residual_sections k elf rest st')"

text \<open>
  libelf: what \<^verbatim>\<open>elf_version(EV_CURRENT)\<close> returns, and the object \<^verbatim>\<open>elf_begin\<close> makes of
  an open file (\<open>None\<close> for a null pointer). \<open>e_shnum\<close> of the object is \<open>None\<close> when
  \<^verbatim>\<open>gelf_getehdr\<close> fails.
\<close>

record libelf =
  elf_version :: nat
  elf_begin :: "int \<Rightarrow> Elf option"

definition EV_NONE :: nat where "EV_NONE = 0"

definition clear_kprobes_cmd :: string where
  "clear_kprobes_cmd =
     ''echo '' @ [CHR 0x22, CHR 0x22] @ '' > /sys/kernel/debug/tracing/kprobe_events''"

text \<open>Lines 303 to 352: the second and third loop, \<^verbatim>\<open>close\<close> and \<^verbatim>\<open>return 0\<close>.\<close>

definition load_programs ::
  "nat \<Rightarrow> kernel \<Rightarrow> Elf \<Rightarrow> nat \<Rightarrow> int \<Rightarrow> Elf_Data option \<Rightarrow> state \<Rightarrow> fault + (int \<times> state)" where
  "load_programs msz k elf shnum fd symbols st =
     (case relo_sections msz k symbols [1..<shnum] (elf, st) of
        Inl f \<Rightarrow> Inl f
      | Inr (elf', st1) \<Rightarrow>
          (case residual_sections k elf' [1..<shnum] st1 of
             Inl f \<Rightarrow> Inl f
           | Inr st2 \<Rightarrow> (let (r, st3) = sys k (Close_fd fd) st2 in Inr (0, st3))))"

definition load_bpf_file ::
  "nat \<Rightarrow> libelf \<Rightarrow> kernel \<Rightarrow> string \<Rightarrow> state \<Rightarrow> fault + (int \<times> state)" where
  "load_bpf_file msz lib k path st =
     (if elf_version lib = EV_NONE then Inr (1, st)
      else (let (r, st1) = sys k (Open_rdonly path) st
            in if ret r < 0 then Inr (1, st1)
               else (case elf_begin lib (ret r) of
                       None \<Rightarrow> Inr (1, st1)
                     | Some elf \<Rightarrow>
                         (case e_shnum elf of
                            None \<Rightarrow> Inr (1, st1)
                          | Some shnum \<Rightarrow>
                              (let (r2, st2) = sys k (System clear_kprobes_cmd) st1
                               in case scan_sections msz k elf [1..<shnum] (None, st2) of
                                    Inl f \<Rightarrow> Inl f
                                  | Inr (Return v (symbols, st3)) \<Rightarrow> Inr (v, st3)
                                  | Inr (Next (symbols, st3)) \<Rightarrow>
                                      load_programs msz k elf shnum (ret r) symbols st3)))))"

subsection \<open>Notions used in the statements\<close>

text \<open>The call that \<^verbatim>\<open>load_maps\<close> makes for the definition at index \<open>i\<close>.\<close>

definition create_call :: "bpf_map_def list \<Rightarrow> nat \<Rightarrow> call" where
  "create_call maps i =
     Bpf_create_map (type (maps ! i)) (key_size (maps ! i)) (value_size (maps ! i))
       (max_entries (maps ! i)) (map_flags (maps ! i))"

text \<open>
  The handle the kernel returns for the definition at index \<open>i\<close> when the definitions
  before it have been created in order, starting in state \<open>st\<close>.
\<close>

definition handle_of :: "kernel \<Rightarrow> bpf_map_def list \<Rightarrow> state \<Rightarrow> nat \<Rightarrow> int" where
  "handle_of k maps st i =
     ret (k (trace st @ map (create_call maps) [0..<i]) (create_call maps i))"

text \<open>What a caller is told by a run: the value returned and the lines printed.\<close>

definition report :: "fault + (int \<times> state) \<Rightarrow> (int \<times> msg list) option" where
  "report r = (case r of Inl f \<Rightarrow> None | Inr (v, st) \<Rightarrow> Some (v, out st))"

definition calls_made :: "fault + (int \<times> state) \<Rightarrow> call list option" where
  "calls_made r = (case r of Inl f \<Rightarrow> None | Inr (v, st) \<Rightarrow> Some (trace st))"

text \<open>The instruction arrays submitted to the kernel and the maps asked of it, in order.\<close>

definition submitted :: "fault + (int \<times> state) \<Rightarrow> bpf_insn list list" where
  "submitted r =
     (case r of
        Inl f \<Rightarrow> []
      | Inr (v, st) \<Rightarrow>
          concat (map (\<lambda>c. case c of Bpf_prog_load t prog sz lic ver \<Rightarrow> [prog] | _ \<Rightarrow> [])
                    (trace st)))"

definition created :: "fault + (int \<times> state) \<Rightarrow> call list" where
  "created r =
     (case r of
        Inl f \<Rightarrow> []
      | Inr (v, st) \<Rightarrow>
          filter (\<lambda>c. case c of Bpf_create_map t ks vs me fl \<Rightarrow> True | _ \<Rightarrow> False) (trace st))"

text \<open>The program submissions among the calls of a trace.\<close>

definition submissions :: "call list \<Rightarrow> call list" where
  "submissions tr =
     filter (\<lambda>c. case c of Bpf_prog_load t prog sz lic ver \<Rightarrow> True | _ \<Rightarrow> False) tr"

text \<open>
  Relocation entry \<open>j\<close> can be applied to \<open>insn\<close>: the entry and its symbol are there,
  the instruction it names is in the buffer and is a 64-bit immediate load, and the map
  index is inside \<^verbatim>\<open>map_fd\<close>.
\<close>

definition entry_ok ::
  "nat \<Rightarrow> Elf_Data \<Rightarrow> Elf_Data option \<Rightarrow> bpf_insn list \<Rightarrow> state \<Rightarrow> nat \<Rightarrow> bool" where
  "entry_ok msz data symbols insn st j =
     (case gelf_getrel data j of
        None \<Rightarrow> False
      | Some rel \<Rightarrow>
          insn_idx_of rel < length insn
          \<and> code (insn ! insn_idx_of rel) = BPF_LD_IMM_DW
          \<and> (case gelf_getsym symbols (GELF_R_SYM (r_info rel)) of
                None \<Rightarrow> False
              | Some sy \<Rightarrow> map_idx_of msz sy < length (map_fd st)))"

text \<open>
  Relocation entry \<open>b\<close> makes \<^verbatim>\<open>parse_relo_and_apply\<close> return 1: the entry is there and
  the instruction it names is in the buffer and is not a 64-bit immediate load.
\<close>

definition bad_entry :: "Elf_Data \<Rightarrow> bpf_insn list \<Rightarrow> nat \<Rightarrow> bool" where
  "bad_entry data insn b =
     (case gelf_getrel data b of
        None \<Rightarrow> False
      | Some rel \<Rightarrow>
          insn_idx_of rel < length insn \<and> code (insn ! insn_idx_of rel) \<noteq> BPF_LD_IMM_DW)"

text \<open>
  The section that relocation section \<open>i\<close> is for, when both sections can be read: the
  case in which the second loop marks the two of them and calls \<^verbatim>\<open>parse_relo_and_apply\<close>.
\<close>

definition rel_target :: "Elf \<Rightarrow> nat \<Rightarrow> nat option" where
  "rel_target elf i =
     (case get_sec elf i of
        Inl e \<Rightarrow> None
      | Inr (shname, shdr, data) \<Rightarrow>
          if sh_type shdr = SHT_REL
          then (case get_sec elf (sh_info shdr) of Inl e \<Rightarrow> None | Inr x \<Rightarrow> Some (sh_info shdr))
          else None)"

text \<open>The state in which the first loop starts: the file is open, the probes are cleared.\<close>

definition after_open :: "kernel \<Rightarrow> string \<Rightarrow> state \<Rightarrow> state" where
  "after_open k path st =
     snd (sys k (System clear_kprobes_cmd) (snd (sys k (Open_rdonly path) st)))"

fun step_state :: "'a step \<Rightarrow> 'a" where
  "step_state (Return v x) = x"
| "step_state (Next x) = x"

text \<open>The sections handed to \<^verbatim>\<open>load_and_attach\<close> in a run, in order.\<close>

definition loads :: "fault + (int \<times> state) \<Rightarrow> (pass \<times> nat) list" where
  "loads r = (case r of Inl f \<Rightarrow> [] | Inr (v, st) \<Rightarrow> loaded_secs st)"

subsection \<open>Concrete inputs\<close>

definition ex_map :: "nat \<Rightarrow> bpf_map_def" where
  "ex_map t = \<lparr>type = t, key_size = 4, value_size = 8, max_entries = 10, map_flags = 0\<rparr>"

text \<open>A kernel in which every call succeeds and returns the next free descriptor.\<close>

definition k_seq :: kernel where
  "k_seq tr c = \<lparr>ret = int (length tr) + 3, err = 0, rdata = []\<rparr>"

text \<open>A kernel whose first \<open>n\<close> calls succeed and whose later calls fail with \<^verbatim>\<open>ENOMEM\<close>.\<close>

definition k_fail_from :: "nat \<Rightarrow> kernel" where
  "k_fail_from n tr c =
     (if length tr < n then \<lparr>ret = int (length tr) + 3, err = 0, rdata = []\<rparr>
      else \<lparr>ret = - 1, err = 12, rdata = []\<rparr>)"

text \<open>
  A kernel in which every call succeeds: descriptors are handed out in order, the other
  calls return 0, and a \<^verbatim>\<open>read\<close> delivers the three characters of an identifier file.
\<close>

definition k_good :: kernel where
  "k_good tr c =
     (case c of
        Bpf_create_map t ks vs me fl \<Rightarrow> \<lparr>ret = int (length tr) + 3, err = 0, rdata = []\<rparr>
      | Bpf_prog_load t prog sz lic ver \<Rightarrow> \<lparr>ret = int (length tr) + 3, err = 0, rdata = []\<rparr>
      | Open_rdonly p \<Rightarrow> \<lparr>ret = int (length tr) + 3, err = 0, rdata = []\<rparr>
      | Perf_event_open a p cpu g fl \<Rightarrow> \<lparr>ret = int (length tr) + 3, err = 0, rdata = []\<rparr>
      | Read_fd fd n \<Rightarrow> \<lparr>ret = 3, err = 0, rdata = ''42'' @ [CHR 0x0A]\<rparr>
      | _ \<Rightarrow> \<lparr>ret = 0, err = 0, rdata = []\<rparr>)"

text \<open>The same kernel, except that every program submission fails with \<^verbatim>\<open>EINVAL\<close>.\<close>

definition k_reject :: kernel where
  "k_reject tr c =
     (case c of
        Bpf_prog_load t prog sz lic ver \<Rightarrow> \<lparr>ret = - 1, err = 22, rdata = []\<rparr>
      | _ \<Rightarrow> k_good tr c)"

definition lib_of :: "Elf \<Rightarrow> libelf" where
  "lib_of elf = \<lparr>elf_version = 1, elf_begin = (\<lambda>fd. Some elf)\<rparr>"

definition mk_scn :: "string \<Rightarrow> nat \<Rightarrow> nat \<Rightarrow> nat \<Rightarrow> nat \<Rightarrow> d_buf \<Rightarrow> nat \<Rightarrow> Elf_Scn" where
  "mk_scn name ty sz info entsize buf dsz =
     \<lparr>scn_shdr = Some \<lparr>sh_type = ty, sh_size = sz, sh_info = info, sh_entsize = entsize\<rparr>,
      scn_name = Some name, scn_data = Some \<lparr>d_buf = buf, d_size = dsz\<rparr>\<rparr>"

definition null_scn :: Elf_Scn where
  "null_scn =
     \<lparr>scn_shdr = Some \<lparr>sh_type = 0, sh_size = 0, sh_info = 0, sh_entsize = 0\<rparr>,
      scn_name = Some [], scn_data = None\<rparr>"

text \<open>
  A program of three instructions: a 64-bit immediate load (two slots) and an exit.
\<close>

definition ex_ld :: bpf_insn where
  "ex_ld = \<lparr>code = 0x18, dst_reg = 1, src_reg = 0, off = 0, imm = 0\<rparr>"

definition ex_pad :: bpf_insn where
  "ex_pad = \<lparr>code = 0, dst_reg = 0, src_reg = 0, off = 0, imm = 0\<rparr>"

definition ex_exit :: bpf_insn where
  "ex_exit = \<lparr>code = 0x95, dst_reg = 0, src_reg = 0, off = 0, imm = 0\<rparr>"

definition ex_prog :: "bpf_insn list" where
  "ex_prog = [ex_ld, ex_pad, ex_exit]"

definition prog_scn :: "string \<Rightarrow> Elf_Scn" where
  "prog_scn name = mk_scn name 1 24 0 0 (Insns ex_prog) 24"

text \<open>A maps section of \<open>n\<close> hash maps, with records of 20 bytes.\<close>

definition maps_scn :: "nat \<Rightarrow> Elf_Scn" where
  "maps_scn n = mk_scn ''maps'' 1 (20 * n) 0 0 (Map_defs (replicate n (ex_map 1))) (20 * n)"

text \<open>A symbol table whose symbol \<open>j + 1\<close> has the value \<open>20 * j\<close>, for \<open>j < 3\<close>.\<close>

definition ex_symbols :: Elf_Data where
  "ex_symbols =
     \<lparr>d_buf = Syms [\<lparr>st_name = 0, st_value = 0\<rparr>, \<lparr>st_name = 1, st_value = 0\<rparr>,
                    \<lparr>st_name = 7, st_value = 20\<rparr>, \<lparr>st_name = 13, st_value = 40\<rparr>],
      d_size = 96\<rparr>"

definition symtab_scn :: Elf_Scn where
  "symtab_scn =
     \<lparr>scn_shdr = Some \<lparr>sh_type = 2, sh_size = 96, sh_info = 0, sh_entsize = 24\<rparr>,
      scn_name = Some ''.symtab'', scn_data = Some ex_symbols\<rparr>"

text \<open>
  A relocation section for section \<open>target\<close> with one entry: the instruction at byte
  \<open>offset\<close> refers to symbol \<open>symndx\<close>.
\<close>

definition ex_rels :: "nat \<Rightarrow> nat \<Rightarrow> Elf_Data" where
  "ex_rels offset symndx =
     \<lparr>d_buf = Rels [\<lparr>r_offset = offset, r_info = symndx * 2 ^ 32 + 1\<rparr>], d_size = 16\<rparr>"

definition ex_rel_shdr :: "nat \<Rightarrow> GElf_Shdr" where
  "ex_rel_shdr target = \<lparr>sh_type = 9, sh_size = 16, sh_info = target, sh_entsize = 16\<rparr>"

definition rel_scn :: "string \<Rightarrow> nat \<Rightarrow> nat \<Rightarrow> nat \<Rightarrow> Elf_Scn" where
  "rel_scn name target offset symndx =
     \<lparr>scn_shdr = Some (ex_rel_shdr target), scn_name = Some name,
      scn_data = Some (ex_rels offset symndx)\<rparr>"

text \<open>
  A relocation section for section \<open>target\<close> with one entry for each pair of \<open>es\<close>: the
  instruction at the byte offset refers to the symbol of that index.
\<close>

definition rels_of :: "(nat \<times> nat) list \<Rightarrow> Elf_Data" where
  "rels_of es =
     \<lparr>d_buf = Rels (map (\<lambda>(offset, symndx). \<lparr>r_offset = offset, r_info = symndx * 2 ^ 32 + 1\<rparr>)
                      es),
      d_size = 16 * length es\<rparr>"

definition rels_shdr :: "nat \<Rightarrow> nat \<Rightarrow> GElf_Shdr" where
  "rels_shdr target n = \<lparr>sh_type = 9, sh_size = 16 * n, sh_info = target, sh_entsize = 16\<rparr>"

definition rels_scn :: "string \<Rightarrow> nat \<Rightarrow> (nat \<times> nat) list \<Rightarrow> Elf_Scn" where
  "rels_scn name target es =
     \<lparr>scn_shdr = Some (rels_shdr target (length es)), scn_name = Some name,
      scn_data = Some (rels_of es)\<rparr>"

text \<open>
  A program of five instructions: two 64-bit immediate loads (two slots each), at
  indices 0 and 2, and an exit at index 4.
\<close>

definition ex_prog5 :: "bpf_insn list" where
  "ex_prog5 = [ex_ld, ex_pad, ex_ld, ex_pad, ex_exit]"

definition prog5_scn :: "string \<Rightarrow> Elf_Scn" where
  "prog5_scn name = mk_scn name 1 40 0 0 (Insns ex_prog5) 40"

text \<open>The state after two maps have been created, with handles 4 and 5.\<close>

definition two_maps_state :: state where
  "two_maps_state = init_state\<lparr>map_fd := (map_fd init_state)[0 := 4, 1 := 5]\<rparr>"

definition license_scn :: "nat \<Rightarrow> Elf_Scn" where
  "license_scn n = mk_scn ''license'' 1 n 0 0 (Chars (replicate n 0x47)) n"

definition version_scn :: "nat \<Rightarrow> Elf_Scn" where
  "version_scn n = mk_scn ''version'' 1 n 0 0 (Chars (replicate n 1)) n"

definition elf_of :: "Elf_Scn list \<Rightarrow> Elf" where
  "elf_of ss = \<lparr>e_shnum = Some (length ss), scns = ss\<rparr>"

text \<open>
  One map, a probe program, and a relocation whose symbol has the value 20: map index 1,
  where only index 0 has been created.
\<close>

definition obj_map_index_1 :: Elf where
  "obj_map_index_1 =
     elf_of [null_scn, maps_scn 1, prog_scn ''kprobe/do_sys_open'', symtab_scn,
             rel_scn ''.relkprobe/do_sys_open'' 2 0 2, license_scn 4, version_scn 4]"

text \<open>
  A kernel that refuses every program with \<^verbatim>\<open>EPERM\<close> and also refuses to raise the
  limit, as it does for a user without the privilege; everything else succeeds.
\<close>

definition k_no_raise :: kernel where
  "k_no_raise tr c =
     (case c of
        Bpf_prog_load t prog sz lic ver \<Rightarrow> \<lparr>ret = - 1, err = 1, rdata = []\<rparr>
      | Setrlimit res rl \<Rightarrow> \<lparr>ret = - 1, err = 1, rdata = []\<rparr>
      | _ \<Rightarrow> k_good tr c)"

text \<open>
  A kernel that refuses a program with \<^verbatim>\<open>EPERM\<close> until the limit has been raised.
\<close>

definition k_eperm_once :: kernel where
  "k_eperm_once tr c =
     (case c of
        Bpf_prog_load t prog sz lic ver \<Rightarrow>
          if list_ex (\<lambda>c'. case c' of Setrlimit res rl \<Rightarrow> True | _ \<Rightarrow> False) tr
          then \<lparr>ret = 7, err = 0, rdata = []\<rparr>
          else \<lparr>ret = - 1, err = 1, rdata = []\<rparr>
      | _ \<Rightarrow> k_good tr c)"

text \<open>
  One map, a probe program whose relocation points at the exit instruction, and a second
  probe program that no relocation section is for.
\<close>

definition obj_bad_opcode_and_plain :: Elf where
  "obj_bad_opcode_and_plain =
     elf_of [null_scn, maps_scn 1, prog_scn ''kprobe/do_sys_open'', symtab_scn,
             rel_scn ''.relkprobe/do_sys_open'' 2 16 1, license_scn 4, version_scn 4,
             prog_scn ''kprobe/sys_close'']"

text \<open>An object in which two relocation sections are for the same program section.\<close>

definition obj_two_rels :: Elf where
  "obj_two_rels =
     elf_of [null_scn, maps_scn 1, prog_scn ''kprobe/do_sys_open'', symtab_scn,
             rel_scn ''.relkprobe/do_sys_open'' 2 0 1, rel_scn ''.rel2kprobe/do_sys_open'' 2 0 1,
             license_scn 4, version_scn 4]"

text \<open>
  A \<^verbatim>\<open>version\<close> section of three bytes, before the maps section in one object and after
  it in the other; and a \<^verbatim>\<open>version\<close> section of no bytes.
\<close>

definition obj_version_first :: Elf where
  "obj_version_first = elf_of [null_scn, license_scn 4, version_scn 3, maps_scn 1]"

definition obj_maps_first :: Elf where
  "obj_maps_first = elf_of [null_scn, maps_scn 1, license_scn 4, version_scn 3]"

definition obj_version_empty :: Elf where
  "obj_version_empty = elf_of [null_scn, version_scn 0, maps_scn 1, license_scn 4]"

text \<open>
  A well-formed object: one map, a probe program with a relocation for that map, and a
  second probe program without relocations.
\<close>

definition obj_two_progs :: Elf where
  "obj_two_progs =
     elf_of [null_scn, maps_scn 1, prog_scn ''kprobe/do_sys_open'', symtab_scn,
             rel_scn ''.relkprobe/do_sys_open'' 2 0 1, license_scn 4, version_scn 4,
             prog_scn ''kprobe/sys_close'']"

text \<open>
  Two maps and three probe programs. The relocation section of the first program is
  sound. That of the second has three entries: one for the load at index 0, one that
  points at the exit instruction, and one for the load at index 2. The third program has
  no relocation section.
\<close>

definition obj_partial :: Elf where
  "obj_partial =
     elf_of [null_scn, maps_scn 2, prog_scn ''kprobe/do_sys_open'', symtab_scn,
             rel_scn ''.relkprobe/do_sys_open'' 2 0 1,
             prog5_scn ''kprobe/sys_read'',
             rels_scn ''.relkprobe/sys_read'' 5 [(0, 2), (32, 1), (16, 1)],
             license_scn 4, version_scn 4, prog_scn ''kprobe/sys_close'']"

section \<open>Map provisioning\<close>

subsection \<open>The loop of \<^verbatim>\<open>load_maps\<close>, round by round\<close>

lemma load_maps_loop_Cons:
  "load_maps_loop k maps (i # rest) st =
     (if \<not> i < length maps then Inl Out_of_bounds
      else if \<not> i < length (map_fd st) then Inl Out_of_bounds
      else (let r = k (trace st) (create_call maps i);
                st2 = st\<lparr>errno := (if ret r < 0 then err r else errno st),
                         trace := trace st @ [create_call maps i],
                         map_fd := (map_fd st)[i := ret r]\<rparr>
            in if ret r < 0 then Inr (1, st2\<lparr>out := out st @ [Failed_create_map (err r)]\<rparr>)
               else load_maps_loop k maps rest
                      (if type (maps ! i) = BPF_MAP_TYPE_PROG_ARRAY
                       then st2\<lparr>prog_array_fd := ret r\<rparr> else st2)))"
  by (simp add: fetch_def store_def bpf_create_map_def sys_def create_call_def Let_def)

lemma load_maps_loop_append:
  "load_maps_loop k maps (xs @ ys) st =
     (case load_maps_loop k maps xs st of
        Inl f \<Rightarrow> Inl f
      | Inr (r, st1) \<Rightarrow> if r \<noteq> 0 then Inr (r, st1) else load_maps_loop k maps ys st1)"
proof (induction xs arbitrary: st)
  case Nil
  show ?case by simp
next
  case (Cons i xs)
  show ?case
    unfolding append_Cons load_maps_loop_Cons [of k maps i] Let_def
    by (simp add: Cons.IH)
qed

lemma load_maps_loop_single:
  "load_maps_loop k maps [i] st =
     (if \<not> i < length maps then Inl Out_of_bounds
      else if \<not> i < length (map_fd st) then Inl Out_of_bounds
      else (let r = k (trace st) (create_call maps i);
                st2 = st\<lparr>errno := (if ret r < 0 then err r else errno st),
                         trace := trace st @ [create_call maps i],
                         map_fd := (map_fd st)[i := ret r]\<rparr>
            in if ret r < 0 then Inr (1, st2\<lparr>out := out st @ [Failed_create_map (err r)]\<rparr>)
               else Inr (0, if type (maps ! i) = BPF_MAP_TYPE_PROG_ARRAY
                       then st2\<lparr>prog_array_fd := ret r\<rparr> else st2)))"
  unfolding load_maps_loop_Cons [of k maps i] Let_def by simp

lemma load_maps_loop_Suc:
  "load_maps_loop k maps [0..<Suc n] st =
     (case load_maps_loop k maps [0..<n] st of
        Inl f \<Rightarrow> Inl f
      | Inr (r, st1) \<Rightarrow> if r \<noteq> 0 then Inr (r, st1) else load_maps_loop k maps [n] st1)"
  by (simp add: load_maps_loop_append)

text \<open>What holds after \<open>n\<close> rounds that all succeeded.\<close>

lemma load_maps_loop_inv:
  "load_maps_loop k maps [0..<n] st = Inr (0, st1) \<Longrightarrow>
     trace st1 = trace st @ map (create_call maps) [0..<n]
     \<and> length (map_fd st1) = length (map_fd st)
     \<and> out st1 = out st
     \<and> (\<forall>i<n. map_fd st1 ! i = handle_of k maps st i \<and> 0 \<le> handle_of k maps st i)
     \<and> (\<forall>i. n \<le> i \<longrightarrow> map_fd st1 ! i = map_fd st ! i)"
proof (induction n arbitrary: st1)
  case 0
  then show ?case by simp
next
  case (Suc n)
  from Suc.prems obtain st0 where
    pre: "load_maps_loop k maps [0..<n] st = Inr (0, st0)" and
    step: "load_maps_loop k maps [n] st0 = Inr (0, st1)"
    unfolding load_maps_loop_Suc by (auto split: sum.splits prod.splits if_splits)
  note ih = Suc.IH [OF pre]
  from step have n: "n < length maps" "n < length (map_fd st0)"
    and ok: "0 \<le> ret (k (trace st0) (create_call maps n))"
    unfolding load_maps_loop_single Let_def by (auto split: if_splits)
  have h: "handle_of k maps st n = ret (k (trace st0) (create_call maps n))"
    using ih by (simp add: handle_of_def)
  from step n ok have tr: "trace st1 = trace st0 @ [create_call maps n]"
    and fd: "map_fd st1 = (map_fd st0)[n := ret (k (trace st0) (create_call maps n))]"
    and ou: "out st1 = out st0"
    unfolding load_maps_loop_single Let_def by (auto split: if_splits)
  show ?case
    using ih tr fd ou n ok h by (auto simp: less_Suc_eq nth_list_update)
qed

lemma load_maps_loop_total:
  "n \<le> length maps \<Longrightarrow> n \<le> length (map_fd st) \<Longrightarrow>
     (\<exists>st1. load_maps_loop k maps [0..<n] st = Inr (0, st1))
     \<or> (\<exists>j<n. \<exists>st0 st1. load_maps_loop k maps [0..<j] st = Inr (0, st0)
            \<and> load_maps_loop k maps [j] st0 = Inr (1, st1)
            \<and> load_maps_loop k maps [0..<n] st = Inr (1, st1))"
proof (induction n)
  case 0
  then show ?case by simp
next
  case (Suc n)
  then have "(\<exists>st1. load_maps_loop k maps [0..<n] st = Inr (0, st1))
     \<or> (\<exists>j<n. \<exists>st0 st1. load_maps_loop k maps [0..<j] st = Inr (0, st0)
            \<and> load_maps_loop k maps [j] st0 = Inr (1, st1)
            \<and> load_maps_loop k maps [0..<n] st = Inr (1, st1))" by simp
  then show ?case
  proof
    assume "\<exists>st1. load_maps_loop k maps [0..<n] st = Inr (0, st1)"
    then obtain st0 where pre: "load_maps_loop k maps [0..<n] st = Inr (0, st0)" ..
    have len: "length (map_fd st0) = length (map_fd st)"
      using load_maps_loop_inv [OF pre] by simp
    have "(\<exists>st1. load_maps_loop k maps [n] st0 = Inr (0, st1))
          \<or> (\<exists>st1. load_maps_loop k maps [n] st0 = Inr (1, st1))"
      unfolding load_maps_loop_single Let_def using Suc.prems len by auto
    then show ?thesis
    proof
      assume "\<exists>st1. load_maps_loop k maps [n] st0 = Inr (0, st1)"
      then show ?thesis unfolding load_maps_loop_Suc using pre by auto
    next
      assume "\<exists>st1. load_maps_loop k maps [n] st0 = Inr (1, st1)"
      then obtain st1 where s: "load_maps_loop k maps [n] st0 = Inr (1, st1)" ..
      have "load_maps_loop k maps [0..<Suc n] st = Inr (1, st1)"
        unfolding load_maps_loop_Suc using pre s by simp
      with pre s show ?thesis by blast
    qed
  next
    assume "\<exists>j<n. \<exists>st0 st1. load_maps_loop k maps [0..<j] st = Inr (0, st0)
            \<and> load_maps_loop k maps [j] st0 = Inr (1, st1)
            \<and> load_maps_loop k maps [0..<n] st = Inr (1, st1)"
    then obtain j st0 st1 where j: "j < n"
      and a: "load_maps_loop k maps [0..<j] st = Inr (0, st0)"
      and b: "load_maps_loop k maps [j] st0 = Inr (1, st1)"
      and c: "load_maps_loop k maps [0..<n] st = Inr (1, st1)" by blast
    have "load_maps_loop k maps [0..<Suc n] st = Inr (1, st1)"
      unfolding load_maps_loop_Suc using c by simp
    with j a b show ?thesis by (metis less_Suc_eq)
  qed
qed


lemma load_maps_loop_prog_array:
  "load_maps_loop k maps [0..<n] st = Inr (0, st1) \<Longrightarrow>
     (\<forall>j<n. type (maps ! j) = BPF_MAP_TYPE_PROG_ARRAY
            \<and> (\<forall>i. j < i \<and> i < n \<longrightarrow> type (maps ! i) \<noteq> BPF_MAP_TYPE_PROG_ARRAY)
          \<longrightarrow> prog_array_fd st1 = map_fd st1 ! j)"
proof (induction n arbitrary: st1)
  case 0
  then show ?case by simp
next
  case (Suc n)
  from Suc.prems obtain st0 where
    pre: "load_maps_loop k maps [0..<n] st = Inr (0, st0)" and
    step: "load_maps_loop k maps [n] st0 = Inr (0, st1)"
    unfolding load_maps_loop_Suc by (auto split: sum.splits prod.splits if_splits)
  note ih = Suc.IH [OF pre]
  from step have n: "n < length maps" "n < length (map_fd st0)"
    and ok: "0 \<le> ret (k (trace st0) (create_call maps n))"
    unfolding load_maps_loop_single Let_def by (auto split: if_splits)
  from step n ok have fd: "map_fd st1 = (map_fd st0)[n := ret (k (trace st0) (create_call maps n))]"
    and pa: "prog_array_fd st1 =
               (if type (maps ! n) = BPF_MAP_TYPE_PROG_ARRAY
                then ret (k (trace st0) (create_call maps n)) else prog_array_fd st0)"
    unfolding load_maps_loop_single Let_def by (auto split: if_splits)
  show ?case
  proof (intro allI impI)
    fix j
    assume j: "j < Suc n"
      and last: "type (maps ! j) = BPF_MAP_TYPE_PROG_ARRAY
                 \<and> (\<forall>i. j < i \<and> i < Suc n \<longrightarrow> type (maps ! i) \<noteq> BPF_MAP_TYPE_PROG_ARRAY)"
    show "prog_array_fd st1 = map_fd st1 ! j"
    proof (cases "j = n")
      case True
      with last pa fd n show ?thesis by simp
    next
      case False
      with j have jn: "j < n" by simp
      with last have np: "type (maps ! n) \<noteq> BPF_MAP_TYPE_PROG_ARRAY" by simp
      from last jn have "\<forall>i. j < i \<and> i < n \<longrightarrow> type (maps ! i) \<noteq> BPF_MAP_TYPE_PROG_ARRAY"
        by simp
      with ih jn last have "prog_array_fd st0 = map_fd st0 ! j" by blast
      with pa np fd False show ?thesis by simp
    qed
  qed
qed

lemma nr_maps_nonneg: "0 \<le> len \<Longrightarrow> len < 2 ^ 31 \<Longrightarrow> nr_maps msz len = nat len div msz"
  by (simp add: nr_maps_def to_size_t_def)


subsection \<open>Claim C3\<close>

text \<open>
  Claim C3, as amended. Let \<open>len\<close> be the byte length of the maps section, a non-negative
  \<^verbatim>\<open>int\<close>, and \<open>N = len div msz\<close> the number of whole records in it (the remainder is
  dropped), with \<open>N\<close> records in the buffer and \<open>N\<close> at most the capacity of \<^verbatim>\<open>map_fd\<close>
  (32 slots). Then \<^verbatim>\<open>load_maps\<close> returns, and either it has made exactly the \<open>N\<close>
  creation calls in definition order, stored the handle of definition \<open>i\<close> at index
  \<open>i\<close> and returned 0; or it has stopped at the first failing creation \<open>j\<close>: the calls
  made are those for definitions \<open>0\<close> to \<open>j\<close> and no other call (nothing is closed),
  the handles of the earlier maps stay in the table, the failing value is stored at
  index \<open>j\<close>, one line with the \<^verbatim>\<open>errno\<close> is printed and 1 is returned. Neither the
  value returned nor the line printed names the failing index.
\<close>

theorem load_maps_in_order:
  assumes len: "0 \<le> len" "len < 2 ^ 31"
    and buf: "nat len div msz \<le> length maps"
    and cap: "nat len div msz \<le> length (map_fd st)"
  shows "(\<exists>st'. load_maps msz k maps len st = Inr (0, st')
            \<and> trace st' = trace st @ map (create_call maps) [0..<nat len div msz]
            \<and> (\<forall>i<nat len div msz.
                  map_fd st' ! i = handle_of k maps st i \<and> 0 \<le> handle_of k maps st i)
            \<and> out st' = out st)
       \<or> (\<exists>j<nat len div msz. \<exists>st'. load_maps msz k maps len st = Inr (1, st')
            \<and> trace st' = trace st @ map (create_call maps) [0..<Suc j]
            \<and> (\<forall>i<j. map_fd st' ! i = handle_of k maps st i \<and> 0 \<le> handle_of k maps st i)
            \<and> map_fd st' ! j = handle_of k maps st j \<and> handle_of k maps st j < 0
            \<and> out st' = out st @ [Failed_create_map (errno st')])"
proof -
  let ?n = "nat len div msz"
  have N: "nr_maps msz len = ?n" using len by (rule nr_maps_nonneg)
  from load_maps_loop_total [OF buf cap, of k]
  show ?thesis
  proof
    assume "\<exists>st1. load_maps_loop k maps [0..<?n] st = Inr (0, st1)"
    then obtain st1 where r: "load_maps_loop k maps [0..<?n] st = Inr (0, st1)" ..
    from load_maps_loop_inv [OF r] r N show ?thesis
      by (auto simp: load_maps_def)
  next
    assume "\<exists>j<?n. \<exists>st0 st1. load_maps_loop k maps [0..<j] st = Inr (0, st0)
              \<and> load_maps_loop k maps [j] st0 = Inr (1, st1)
              \<and> load_maps_loop k maps [0..<?n] st = Inr (1, st1)"
    then obtain j st0 st1 where j: "j < ?n"
      and a: "load_maps_loop k maps [0..<j] st = Inr (0, st0)"
      and b: "load_maps_loop k maps [j] st0 = Inr (1, st1)"
      and c: "load_maps_loop k maps [0..<?n] st = Inr (1, st1)" by blast
    note inv = load_maps_loop_inv [OF a]
    have h: "handle_of k maps st j = ret (k (trace st0) (create_call maps j))"
      using inv by (simp add: handle_of_def)
    from j buf cap inv have jl: "j < length maps" "j < length (map_fd st0)" by simp_all
    from b jl have neg: "ret (k (trace st0) (create_call maps j)) < 0"
      unfolding load_maps_loop_single Let_def by (auto split: if_splits)
    from b jl neg have st1: "st1 = st0\<lparr>errno := err (k (trace st0) (create_call maps j)),
                         trace := trace st0 @ [create_call maps j],
                         map_fd := (map_fd st0)[j := ret (k (trace st0) (create_call maps j))],
                         out := out st0 @ [Failed_create_map (err (k (trace st0) (create_call maps j)))]\<rparr>"
      unfolding load_maps_loop_single Let_def by (auto split: if_splits)
    have "load_maps msz k maps len st = Inr (1, st1)"
      using c N by (simp add: load_maps_def)
    moreover have "trace st1 = trace st @ map (create_call maps) [0..<Suc j]"
      using st1 inv by simp
    moreover have "\<forall>i<j. map_fd st1 ! i = handle_of k maps st i \<and> 0 \<le> handle_of k maps st i"
      using st1 inv by (simp add: nth_list_update)
    moreover have "map_fd st1 ! j = handle_of k maps st j"
      using st1 h jl by simp
    moreover have "handle_of k maps st j < 0" using h neg by simp
    moreover have "out st1 = out st @ [Failed_create_map (errno st1)]"
      using st1 inv by simp
    ultimately show ?thesis using j by blast
  qed
qed


theorem load_maps_in_order_witness:
  "(0::int) \<le> 45 \<and> (45::int) < 2 ^ 31
   \<and> nat 45 div 20 \<le> length [ex_map 3, ex_map 1]
   \<and> nat 45 div 20 \<le> length (map_fd init_state)
   \<and> (\<exists>st'. load_maps 20 (k_fail_from 1) [ex_map 3, ex_map 1] 45 init_state = Inr (1, st')
          \<and> out st' = [Failed_create_map (errno st')])"
proof -
  have h3: "nat 45 div 20 \<le> length [ex_map 3, ex_map 1]" by simp
  have h4: "nat 45 div 20 \<le> length (map_fd init_state)" by (simp add: init_state_def)
  have ev: "report (load_maps 20 (k_fail_from 1) [ex_map 3, ex_map 1] 45 init_state)
              = Some (1, [Failed_create_map 12])"
    by code_simp
  have o: "out init_state = []" by (simp add: init_state_def)
  from load_maps_in_order [OF _ _ h3 h4, of "k_fail_from 1"] ev o
  have "\<exists>st'. load_maps 20 (k_fail_from 1) [ex_map 3, ex_map 1] 45 init_state = Inr (1, st')
          \<and> out st' = [Failed_create_map (errno st')]"
    by (auto simp: report_def)
  with h3 h4 show ?thesis by simp
qed

text \<open>
  The claim as stated fails twice. A run that fails at index 0 and a run that fails at
  index 1 return the same value and print the same line, so the index is not reported;
  and with 33 definitions the 33rd handle is written past the 32 slots of \<^verbatim>\<open>map_fd\<close>.
\<close>

theorem load_maps_report_counterexample:
  "calls_made (load_maps 20 (k_fail_from 0) [ex_map 1, ex_map 2] 40 init_state)
     = Some [Bpf_create_map 1 4 8 10 0]
   \<and> calls_made (load_maps 20 (k_fail_from 1) [ex_map 1, ex_map 2] 40 init_state)
     = Some [Bpf_create_map 1 4 8 10 0, Bpf_create_map 2 4 8 10 0]
   \<and> report (load_maps 20 (k_fail_from 0) [ex_map 1, ex_map 2] 40 init_state)
     = report (load_maps 20 (k_fail_from 1) [ex_map 1, ex_map 2] 40 init_state)
   \<and> load_maps 20 k_seq (replicate 33 (ex_map 1)) 660 init_state = Inl Out_of_bounds"
  by code_simp

subsection \<open>Claim C9\<close>

text \<open>
  Claim C9. When \<^verbatim>\<open>load_maps\<close> has created every map of the list, the remembered
  program-array handle \<^verbatim>\<open>prog_array_fd\<close> is the handle of the last definition of
  program-array type: the entry of \<^verbatim>\<open>map_fd\<close> at that definition's index, which is the
  handle the kernel returned for it. With two or more such definitions the earlier
  handles are overwritten.
\<close>

theorem prog_array_last_wins:
  assumes run: "load_maps msz k maps len st = Inr (0, st')"
    and j: "j < nr_maps msz len"
    and pa: "type (maps ! j) = BPF_MAP_TYPE_PROG_ARRAY"
    and last: "\<forall>i. j < i \<and> i < nr_maps msz len \<longrightarrow> type (maps ! i) \<noteq> BPF_MAP_TYPE_PROG_ARRAY"
  shows "prog_array_fd st' = map_fd st' ! j \<and> map_fd st' ! j = handle_of k maps st j"
proof -
  from run have r: "load_maps_loop k maps [0..<nr_maps msz len] st = Inr (0, st')"
    by (simp add: load_maps_def)
  from load_maps_loop_prog_array [OF r] j pa last
  have "prog_array_fd st' = map_fd st' ! j" by blast
  moreover from load_maps_loop_inv [OF r] j
  have "map_fd st' ! j = handle_of k maps st j" by blast
  ultimately show ?thesis ..
qed


theorem prog_array_last_wins_witness:
  "(2::nat) < nr_maps 20 65
   \<and> type ([ex_map 3, ex_map 1, ex_map 3] ! 0) = BPF_MAP_TYPE_PROG_ARRAY
   \<and> type ([ex_map 3, ex_map 1, ex_map 3] ! 2) = BPF_MAP_TYPE_PROG_ARRAY
   \<and> (\<exists>st'. load_maps 20 k_seq [ex_map 3, ex_map 1, ex_map 3] 65 init_state = Inr (0, st')
          \<and> map_fd st' ! 0 = 3 \<and> map_fd st' ! 2 = 5 \<and> prog_array_fd st' = 5)"
proof -
  let ?ms = "[ex_map 3, ex_map 1, ex_map 3]"
  have ev: "(case load_maps 20 k_seq ?ms 65 init_state of
               Inl f \<Rightarrow> False | Inr (r, st) \<Rightarrow> r = 0 \<and> map_fd st ! 0 = 3 \<and> map_fd st ! 2 = 5)"
    by code_simp
  then obtain st' where run: "load_maps 20 k_seq ?ms 65 init_state = Inr (0, st')"
    and v: "map_fd st' ! 0 = 3" "map_fd st' ! 2 = 5"
    by (auto split: sum.splits)
  have n: "nr_maps 20 65 = 3" by (simp add: nr_maps_def to_size_t_def)
  have j: "(2::nat) < nr_maps 20 65" using n by simp
  have pa0: "type (?ms ! 0) = BPF_MAP_TYPE_PROG_ARRAY"
    by (simp add: ex_map_def BPF_MAP_TYPE_PROG_ARRAY_def)
  have pa: "type (?ms ! 2) = BPF_MAP_TYPE_PROG_ARRAY"
    by (simp add: ex_map_def BPF_MAP_TYPE_PROG_ARRAY_def)
  have last: "\<forall>i. 2 < i \<and> i < nr_maps 20 65 \<longrightarrow> type (?ms ! i) \<noteq> BPF_MAP_TYPE_PROG_ARRAY"
    using n by simp
  from prog_array_last_wins [OF run j pa last] v
  have "prog_array_fd st' = 5" by simp
  with run v j pa0 pa show ?thesis by blast
qed

section \<open>Relocation\<close>

subsection \<open>The loop of \<^verbatim>\<open>parse_relo_and_apply\<close>\<close>

lemma relo_loop_frame:
  "relo_loop msz data symbols is insn st = Inr (r, insn', st') \<Longrightarrow>
     length insn' = length insn \<and> (\<forall>p. code (insn' ! p) = code (insn ! p))
     \<and> (r = 0 \<longrightarrow> st' = st) \<and> (r = 0 \<or> r = 1)
     \<and> (r \<noteq> 0 \<longrightarrow> (\<exists>idx c. st' = st\<lparr>out := out st @ [Invalid_relo idx c]\<rparr> \<and> c \<noteq> BPF_LD_IMM_DW))"
proof (induction "is" arbitrary: insn)
  case Nil
  then show ?case by simp
next
  case (Cons i rest)
  show ?case
  proof (cases "gelf_getrel data i")
    case None
    with Cons.prems show ?thesis by simp
  next
    case (Some rel)
    show ?thesis
    proof (cases "insn_idx_of rel < length insn")
      case False
      with Cons.prems Some show ?thesis by (simp add: fetch_def)
    next
      case True
      show ?thesis
      proof (cases "code (insn ! insn_idx_of rel) = BPF_LD_IMM_DW")
        case False
        with Cons.prems Some True show ?thesis by (auto simp: fetch_def)
      next
        case good: True
        from Cons.prems Some True good obtain sy fd where
          sy: "gelf_getsym symbols (GELF_R_SYM (r_info rel)) = Some sy"
          and fd: "fetch (map_fd st) (map_idx_of msz sy) = Inr fd"
          and rest: "relo_loop msz data symbols rest
                       (insn[insn_idx_of rel :=
                          (insn ! insn_idx_of rel)\<lparr>src_reg := BPF_PSEUDO_MAP_FD, imm := fd\<rparr>]) st
                     = Inr (r, insn', st')"
          by (auto simp: fetch_def split: option.splits sum.splits if_splits)
        from Cons.IH [OF rest] True show ?thesis
          by (auto simp: nth_list_update)
      qed
    qed
  qed
qed

lemma relo_loop_untouched:
  "relo_loop msz data symbols is insn st = Inr (r, insn', st') \<Longrightarrow>
   (\<forall>j\<in>set is. \<forall>rel'. gelf_getrel data j = Some rel' \<longrightarrow> insn_idx_of rel' \<noteq> p) \<Longrightarrow>
   insn' ! p = insn ! p"
proof (induction "is" arbitrary: insn)
  case Nil
  then show ?case by simp
next
  case (Cons i rest)
  from Cons.prems(1) obtain rel where rel: "gelf_getrel data i = Some rel"
    by (auto split: option.splits)
  with Cons.prems(2) have ne: "insn_idx_of rel \<noteq> p" by simp
  show ?case
  proof (cases "code (insn ! insn_idx_of rel) = BPF_LD_IMM_DW")
    case False
    with Cons.prems(1) rel show ?thesis
      by (auto simp: fetch_def split: if_splits)
  next
    case True
    with Cons.prems(1) rel obtain fd where
      rest: "relo_loop msz data symbols rest
               (insn[insn_idx_of rel :=
                  (insn ! insn_idx_of rel)\<lparr>src_reg := BPF_PSEUDO_MAP_FD, imm := fd\<rparr>]) st
             = Inr (r, insn', st')"
      by (auto simp: fetch_def split: option.splits sum.splits if_splits)
    from Cons.prems(2) have "\<forall>j\<in>set rest. \<forall>rel'. gelf_getrel data j = Some rel' \<longrightarrow> insn_idx_of rel' \<noteq> p"
      by simp
    from Cons.IH [OF rest this] ne show ?thesis by simp
  qed
qed

lemma relo_loop_patch:
  "relo_loop msz data symbols (pre @ i # post) insn st = Inr (r, insn', st') \<Longrightarrow>
   gelf_getrel data i = Some rel \<Longrightarrow>
   gelf_getsym symbols (GELF_R_SYM (r_info rel)) = Some sy \<Longrightarrow>
   (\<forall>j\<in>set (pre @ [i]). \<forall>rel'. gelf_getrel data j = Some rel'
        \<longrightarrow> code (insn ! insn_idx_of rel') = BPF_LD_IMM_DW) \<Longrightarrow>
   (\<forall>j\<in>set post. \<forall>rel'. gelf_getrel data j = Some rel'
        \<longrightarrow> insn_idx_of rel' \<noteq> insn_idx_of rel) \<Longrightarrow>
   insn' ! insn_idx_of rel
     = (insn ! insn_idx_of rel)
         \<lparr>src_reg := BPF_PSEUDO_MAP_FD, imm := map_fd st ! map_idx_of msz sy\<rparr>
   \<and> insn_idx_of rel < length insn \<and> map_idx_of msz sy < length (map_fd st)"
proof (induction pre arbitrary: insn)
  case Nil
  from Nil.prems(4,2) have good: "code (insn ! insn_idx_of rel) = BPF_LD_IMM_DW" by simp
  from Nil.prems(1,2,3) good have
    b: "insn_idx_of rel < length insn" "map_idx_of msz sy < length (map_fd st)"
    and rest: "relo_loop msz data symbols post
               (insn[insn_idx_of rel :=
                  (insn ! insn_idx_of rel)
                    \<lparr>src_reg := BPF_PSEUDO_MAP_FD, imm := map_fd st ! map_idx_of msz sy\<rparr>]) st
             = Inr (r, insn', st')"
    by (auto simp: fetch_def split: if_splits)
  from relo_loop_untouched [OF rest Nil.prems(5)] b show ?case by simp
next
  case (Cons p pre)
  from Cons.prems(1) obtain relp where relp: "gelf_getrel data p = Some relp"
    by (auto split: option.splits)
  with Cons.prems(4) have good: "code (insn ! insn_idx_of relp) = BPF_LD_IMM_DW" by simp
  from Cons.prems(1) relp good obtain fd where
    b: "insn_idx_of relp < length insn"
    and rest: "relo_loop msz data symbols (pre @ i # post)
               (insn[insn_idx_of relp :=
                  (insn ! insn_idx_of relp)\<lparr>src_reg := BPF_PSEUDO_MAP_FD, imm := fd\<rparr>]) st
             = Inr (r, insn', st')"
    by (auto simp: fetch_def split: option.splits sum.splits if_splits)
  let ?insn1 = "insn[insn_idx_of relp :=
                  (insn ! insn_idx_of relp)\<lparr>src_reg := BPF_PSEUDO_MAP_FD, imm := fd\<rparr>]"
  have codes: "\<And>q. code (?insn1 ! q) = code (insn ! q)"
    using b by (simp add: nth_list_update)
  have good1: "\<forall>j\<in>set (pre @ [i]). \<forall>rel'. gelf_getrel data j = Some rel'
        \<longrightarrow> code (?insn1 ! insn_idx_of rel') = BPF_LD_IMM_DW"
    using Cons.prems(4) codes by simp
  from Cons.IH [OF rest Cons.prems(2,3) good1 Cons.prems(5)]
  show ?case using b by (auto simp: nth_list_update)
qed

lemma upt_split: "i < n \<Longrightarrow> [0..<n] = [0..<i] @ i # [Suc i..<n]"
proof -
  assume i: "i < n"
  have "[0..<i + (n - i)] = [0..<i] @ [i..<i + (n - i)]"
    by (rule upt_add_eq_append) simp
  with i show ?thesis by (simp add: upt_conv_Cons)
qed

lemma entry_ok_cong:
  "length insn1 = length insn \<Longrightarrow> (\<And>q. code (insn1 ! q) = code (insn ! q)) \<Longrightarrow>
   map_fd st1 = map_fd st \<Longrightarrow>
   entry_ok msz data symbols insn1 st1 j = entry_ok msz data symbols insn st j"
  by (simp add: entry_ok_def split: option.splits)

lemma relo_loop_first_bad:
  "(\<forall>j\<in>set pre. entry_ok msz data symbols insn st j) \<Longrightarrow>
   gelf_getrel data b = Some rel \<Longrightarrow> insn_idx_of rel < length insn \<Longrightarrow>
   code (insn ! insn_idx_of rel) \<noteq> BPF_LD_IMM_DW \<Longrightarrow>
   \<exists>insn'. relo_loop msz data symbols (pre @ b # post) insn st
            = Inr (1, insn',
                   st\<lparr>out := out st @ [Invalid_relo (insn_idx_of rel)
                                         (code (insn ! insn_idx_of rel))]\<rparr>)"
proof (induction pre arbitrary: insn)
  case Nil
  then show ?case by (simp add: fetch_def)
next
  case (Cons p pre)
  from Cons.prems(1) have okp: "entry_ok msz data symbols insn st p" by simp
  then obtain relp sy where relp: "gelf_getrel data p = Some relp"
    and bp: "insn_idx_of relp < length insn"
    and cp: "code (insn ! insn_idx_of relp) = BPF_LD_IMM_DW"
    and sy: "gelf_getsym symbols (GELF_R_SYM (r_info relp)) = Some sy"
    and mp: "map_idx_of msz sy < length (map_fd st)"
    by (auto simp: entry_ok_def split: option.splits)
  let ?insn1 = "insn[insn_idx_of relp :=
                  (insn ! insn_idx_of relp)
                    \<lparr>src_reg := BPF_PSEUDO_MAP_FD, imm := map_fd st ! map_idx_of msz sy\<rparr>]"
  have len: "length ?insn1 = length insn" by simp
  have codes: "\<And>q. code (?insn1 ! q) = code (insn ! q)"
    using bp by (simp add: nth_list_update)
  have step: "relo_loop msz data symbols ((p # pre) @ b # post) insn st
                = relo_loop msz data symbols (pre @ b # post) ?insn1 st"
    using relp bp cp sy mp by (simp add: fetch_def)
  have ok1: "\<forall>j\<in>set pre. entry_ok msz data symbols ?insn1 st j"
    using Cons.prems(1) entry_ok_cong [OF len codes refl] by simp
  from Cons.IH [OF ok1 Cons.prems(2)] Cons.prems(3,4) len codes step
  show ?case by simp
qed


lemma relo_loop_all_ok:
  "(\<forall>j\<in>set is. entry_ok msz data symbols insn st j) \<Longrightarrow>
   \<exists>insn'. relo_loop msz data symbols is insn st = Inr (0, insn', st)"
proof (induction "is" arbitrary: insn)
  case Nil
  then show ?case by simp
next
  case (Cons p rest)
  from Cons.prems have okp: "entry_ok msz data symbols insn st p" by simp
  then obtain relp sy where relp: "gelf_getrel data p = Some relp"
    and bp: "insn_idx_of relp < length insn"
    and cp: "code (insn ! insn_idx_of relp) = BPF_LD_IMM_DW"
    and sy: "gelf_getsym symbols (GELF_R_SYM (r_info relp)) = Some sy"
    and mp: "map_idx_of msz sy < length (map_fd st)"
    by (auto simp: entry_ok_def split: option.splits)
  let ?insn1 = "insn[insn_idx_of relp :=
                  (insn ! insn_idx_of relp)
                    \<lparr>src_reg := BPF_PSEUDO_MAP_FD, imm := map_fd st ! map_idx_of msz sy\<rparr>]"
  have len: "length ?insn1 = length insn" by simp
  have codes: "\<And>q. code (?insn1 ! q) = code (insn ! q)"
    using bp by (simp add: nth_list_update)
  have step: "relo_loop msz data symbols (p # rest) insn st
                = relo_loop msz data symbols rest ?insn1 st"
    using relp bp cp sy mp by (simp add: fetch_def)
  have ok1: "\<forall>j\<in>set rest. entry_ok msz data symbols ?insn1 st j"
    using Cons.prems entry_ok_cong [OF len codes refl] by simp
  from Cons.IH [OF ok1] step show ?case by simp
qed

lemma relo_loop_append:
  "relo_loop msz data symbols (xs @ ys) insn st
     = (case relo_loop msz data symbols xs insn st of
          Inl f \<Rightarrow> Inl f
        | Inr (r, insn1, st1) \<Rightarrow>
            if r \<noteq> 0 then Inr (r, insn1, st1) else relo_loop msz data symbols ys insn1 st1)"
  by (induction xs arbitrary: insn) (auto split: option.splits sum.splits)

subsection \<open>Claim C1\<close>

text \<open>
  Claim C1, as amended. Let the entries \<open>0, \<dots>, b - 1\<close> of a relocation section be
  applicable (the entry and its symbol are there, the target instruction is in the buffer
  and is a 64-bit immediate load, the map index is inside \<^verbatim>\<open>map_fd\<close>), and let entry
  \<open>b\<close>, if the section has one, name an instruction that is not such a load. Then
  \<^verbatim>\<open>parse_relo_and_apply\<close> returns, 1 if there is such an entry \<open>b\<close> and 0 otherwise, and
  for every entry \<open>i < b\<close>: its target is the instruction at index
  \<^verbatim>\<open>r_offset / sizeof(struct bpf_insn)\<close> (an \<^verbatim>\<open>unsigned int\<close>), its map index is the value
  of its symbol divided by the size of a map definition; when the loop has handled the
  entries up to \<open>i\<close> that instruction is the original one with \<^verbatim>\<open>src_reg\<close> set to
  \<^verbatim>\<open>BPF_PSEUDO_MAP_FD\<close> and \<^verbatim>\<open>imm\<close> set to the entry of \<^verbatim>\<open>map_fd\<close> at the map index; and
  in the array the function leaves behind it is the original one with \<^verbatim>\<open>src_reg\<close> set
  to \<^verbatim>\<open>BPF_PSEUDO_MAP_FD\<close> and \<^verbatim>\<open>imm\<close> set to the entry of \<^verbatim>\<open>map_fd\<close> for the last entry
  before \<open>b\<close> that names it. The entries from \<open>b\<close> on are not applied: the array left
  behind is the one after the first \<open>b\<close> entries, and an instruction that none of these
  names is as it was.
\<close>

theorem relocation_patches_insn:
  assumes ent: "sh_entsize shdr \<noteq> 0"
    and i: "i < b"
    and b: "b \<le> nrels_of shdr"
    and ok: "\<forall>j<b. entry_ok msz data symbols insn st j"
    and stop: "b < nrels_of shdr \<longrightarrow> bad_entry data insn b"
    and rel: "gelf_getrel data i = Some rel"
    and sy: "gelf_getsym symbols (GELF_R_SYM (r_info rel)) = Some sy"
  shows "insn_idx_of rel = (r_offset rel div 8) mod 2 ^ 32
       \<and> map_idx_of msz sy = st_value sy div msz
       \<and> (\<exists>insn1. relo_loop msz data symbols [0..<Suc i] insn st = Inr (0, insn1, st)
             \<and> insn1 ! insn_idx_of rel
                 = (insn ! insn_idx_of rel)
                     \<lparr>src_reg := BPF_PSEUDO_MAP_FD, imm := map_fd st ! map_idx_of msz sy\<rparr>)
       \<and> (\<exists>insn' st'.
             parse_relo_and_apply msz data symbols shdr insn st
               = Inr (if b < nrels_of shdr then 1 else 0, insn', st')
             \<and> relo_loop msz data symbols [0..<b] insn st = Inr (0, insn', st)
             \<and> (\<exists>j rel' sy'.
                   i \<le> j \<and> j < b \<and> gelf_getrel data j = Some rel'
                   \<and> insn_idx_of rel' = insn_idx_of rel
                   \<and> gelf_getsym symbols (GELF_R_SYM (r_info rel')) = Some sy'
                   \<and> (\<forall>j' rel''. j < j' \<and> j' < b \<and> gelf_getrel data j' = Some rel''
                          \<longrightarrow> insn_idx_of rel'' \<noteq> insn_idx_of rel)
                   \<and> insn' ! insn_idx_of rel
                       = (insn ! insn_idx_of rel)
                           \<lparr>src_reg := BPF_PSEUDO_MAP_FD,
                            imm := map_fd st ! map_idx_of msz sy'\<rparr>)
             \<and> (\<forall>p. (\<forall>j rel'. j < b \<and> gelf_getrel data j = Some rel'
                          \<longrightarrow> insn_idx_of rel' \<noteq> p)
                     \<longrightarrow> insn' ! p = insn ! p))"
proof -
  let ?n = "nrels_of shdr"
  let ?idx = "insn_idx_of rel"
  have okset: "\<And>m. m \<le> b \<Longrightarrow> \<forall>j\<in>set [0..<m]. entry_ok msz data symbols insn st j"
    using ok by simp
  have goodset: "\<And>m. m < b \<Longrightarrow>
      \<forall>j\<in>set ([0..<m] @ [m]). \<forall>rel'. gelf_getrel data j = Some rel'
          \<longrightarrow> code (insn ! insn_idx_of rel') = BPF_LD_IMM_DW"
  proof (intro ballI allI impI)
    fix m j rel'
    assume m: "m < b" and j: "j \<in> set ([0..<m] @ [m])" and r: "gelf_getrel data j = Some rel'"
    from m j have "j < b" by auto
    with ok have "entry_ok msz data symbols insn st j" by simp
    with r show "code (insn ! insn_idx_of rel') = BPF_LD_IMM_DW" by (simp add: entry_ok_def)
  qed
  have c1: "insn_idx_of rel = (r_offset rel div 8) mod 2 ^ 32"
    by (simp add: insn_idx_of_def sizeof_bpf_insn_def)
  have c2: "map_idx_of msz sy = st_value sy div msz"
    by (simp add: map_idx_of_def)
  have c3: "\<exists>insn1. relo_loop msz data symbols [0..<Suc i] insn st = Inr (0, insn1, st)
             \<and> insn1 ! ?idx
                 = (insn ! ?idx)\<lparr>src_reg := BPF_PSEUDO_MAP_FD, imm := map_fd st ! map_idx_of msz sy\<rparr>"
  proof -
    from i have si: "Suc i \<le> b" by simp
    from relo_loop_all_ok [OF okset [OF si]] obtain insn1 where
      p1: "relo_loop msz data symbols [0..<Suc i] insn st = Inr (0, insn1, st)" by blast
    then have p1': "relo_loop msz data symbols ([0..<i] @ i # []) insn st = Inr (0, insn1, st)"
      by simp
    have "\<forall>j\<in>set []. \<forall>rel'. gelf_getrel data j = Some rel' \<longrightarrow> insn_idx_of rel' \<noteq> ?idx"
      by simp
    from relo_loop_patch [OF p1' rel sy goodset [OF i] this] p1 show ?thesis by blast
  qed
  from relo_loop_all_ok [OF okset [OF order_refl]] obtain insn' where
    pb: "relo_loop msz data symbols [0..<b] insn st = Inr (0, insn', st)" by blast
  note fr = relo_loop_frame [OF pb]
  have whole: "\<exists>st'. parse_relo_and_apply msz data symbols shdr insn st
                       = Inr (if b < ?n then 1 else 0, insn', st')"
  proof (cases "b < ?n")
    case True
    with stop obtain relb where relb: "gelf_getrel data b = Some relb"
      and inb: "insn_idx_of relb < length insn"
      and badb: "code (insn ! insn_idx_of relb) \<noteq> BPF_LD_IMM_DW"
      by (auto simp: bad_entry_def split: option.splits)
    have "relo_loop msz data symbols [0..<?n] insn st
            = relo_loop msz data symbols (b # [Suc b..<?n]) insn' st"
      unfolding upt_split [OF True] relo_loop_append using pb by simp
    also have "\<dots> = Inr (1, insn',
                          st\<lparr>out := out st @ [Invalid_relo (insn_idx_of relb)
                                                (code (insn' ! insn_idx_of relb))]\<rparr>)"
      using relb inb badb fr by (simp add: fetch_def)
    finally show ?thesis using True ent by (simp add: parse_relo_and_apply_def)
  next
    case False
    with b have "b = ?n" by simp
    with pb ent show ?thesis by (simp add: parse_relo_and_apply_def)
  qed
  define S where
    "S = {j. i \<le> j \<and> j < b \<and> (\<exists>rel'. gelf_getrel data j = Some rel' \<and> insn_idx_of rel' = ?idx)}"
  have "S \<subseteq> {..<b}" by (auto simp: S_def)
  then have fin: "finite S" by (rule finite_subset) simp
  have ne: "S \<noteq> {}" using i rel by (auto simp: S_def)
  define j where "j = Max S"
  have jS: "j \<in> S" unfolding j_def using fin ne by (rule Max_in)
  have jmax: "\<And>j'. j' \<in> S \<Longrightarrow> j' \<le> j" unfolding j_def using fin by (rule Max_ge)
  from jS obtain rel' where ij: "i \<le> j" and jb: "j < b"
    and relj: "gelf_getrel data j = Some rel'" and idxj: "insn_idx_of rel' = ?idx"
    by (auto simp: S_def)
  from ok jb have "entry_ok msz data symbols insn st j" by simp
  with relj obtain sy' where syj: "gelf_getsym symbols (GELF_R_SYM (r_info rel')) = Some sy'"
    by (auto simp: entry_ok_def split: option.splits)
  have later: "\<forall>j' rel''. j < j' \<and> j' < b \<and> gelf_getrel data j' = Some rel''
                 \<longrightarrow> insn_idx_of rel'' \<noteq> ?idx"
  proof (intro allI impI notI)
    fix j' rel''
    assume h: "j < j' \<and> j' < b \<and> gelf_getrel data j' = Some rel''"
      and e: "insn_idx_of rel'' = ?idx"
    with ij have "j' \<in> S" by (simp add: S_def)
    from jmax [OF this] h show False by simp
  qed
  have pb': "relo_loop msz data symbols ([0..<j] @ j # [Suc j..<b]) insn st = Inr (0, insn', st)"
    using pb upt_split [OF jb] by simp
  have l: "\<forall>j'\<in>set [Suc j..<b]. \<forall>rel''. gelf_getrel data j' = Some rel''
             \<longrightarrow> insn_idx_of rel'' \<noteq> insn_idx_of rel'"
  proof (intro ballI allI impI)
    fix j' rel''
    assume "j' \<in> set [Suc j..<b]" and r: "gelf_getrel data j' = Some rel''"
    then have "j < j' \<and> j' < b \<and> gelf_getrel data j' = Some rel''" by auto
    from later [rule_format, OF this] idxj show "insn_idx_of rel'' \<noteq> insn_idx_of rel'" by simp
  qed
  from relo_loop_patch [OF pb' relj syj goodset [OF jb] l] idxj
  have fv: "insn' ! ?idx
              = (insn ! ?idx)\<lparr>src_reg := BPF_PSEUDO_MAP_FD, imm := map_fd st ! map_idx_of msz sy'\<rparr>"
    by simp
  have unt: "\<forall>p. (\<forall>j rel'. j < b \<and> gelf_getrel data j = Some rel' \<longrightarrow> insn_idx_of rel' \<noteq> p)
               \<longrightarrow> insn' ! p = insn ! p"
  proof (intro allI impI)
    fix p
    assume "\<forall>j rel'. j < b \<and> gelf_getrel data j = Some rel' \<longrightarrow> insn_idx_of rel' \<noteq> p"
    then have "\<forall>j\<in>set [0..<b]. \<forall>rel'. gelf_getrel data j = Some rel' \<longrightarrow> insn_idx_of rel' \<noteq> p"
      by simp
    from relo_loop_untouched [OF pb this] show "insn' ! p = insn ! p" .
  qed
  have c4: "\<exists>j rel' sy'.
              i \<le> j \<and> j < b \<and> gelf_getrel data j = Some rel'
              \<and> insn_idx_of rel' = ?idx
              \<and> gelf_getsym symbols (GELF_R_SYM (r_info rel')) = Some sy'
              \<and> (\<forall>j' rel''. j < j' \<and> j' < b \<and> gelf_getrel data j' = Some rel''
                     \<longrightarrow> insn_idx_of rel'' \<noteq> ?idx)
              \<and> insn' ! ?idx
                  = (insn ! ?idx)\<lparr>src_reg := BPF_PSEUDO_MAP_FD,
                                  imm := map_fd st ! map_idx_of msz sy'\<rparr>"
    using ij jb relj idxj syj later fv by blast
  from whole obtain st' where
    w: "parse_relo_and_apply msz data symbols shdr insn st
          = Inr (if b < ?n then 1 else 0, insn', st')" ..
  from w pb c4 unt have c5: "\<exists>insn' st'.
             parse_relo_and_apply msz data symbols shdr insn st
               = Inr (if b < nrels_of shdr then 1 else 0, insn', st')
             \<and> relo_loop msz data symbols [0..<b] insn st = Inr (0, insn', st)
             \<and> (\<exists>j rel' sy'.
                   i \<le> j \<and> j < b \<and> gelf_getrel data j = Some rel'
                   \<and> insn_idx_of rel' = insn_idx_of rel
                   \<and> gelf_getsym symbols (GELF_R_SYM (r_info rel')) = Some sy'
                   \<and> (\<forall>j' rel''. j < j' \<and> j' < b \<and> gelf_getrel data j' = Some rel''
                          \<longrightarrow> insn_idx_of rel'' \<noteq> insn_idx_of rel)
                   \<and> insn' ! insn_idx_of rel
                       = (insn ! insn_idx_of rel)
                           \<lparr>src_reg := BPF_PSEUDO_MAP_FD,
                            imm := map_fd st ! map_idx_of msz sy'\<rparr>)
             \<and> (\<forall>p. (\<forall>j rel'. j < b \<and> gelf_getrel data j = Some rel'
                          \<longrightarrow> insn_idx_of rel' \<noteq> p)
                     \<longrightarrow> insn' ! p = insn ! p)"
    by blast
  from c1 c2 c3 c5 show ?thesis by (intro conjI)
qed

theorem relocation_patches_insn_witness:
  "entry_ok 20 (rels_of [(0, 1), (0, 2), (32, 1), (16, 1)]) (Some ex_symbols) ex_prog5
     two_maps_state 0
   \<and> entry_ok 20 (rels_of [(0, 1), (0, 2), (32, 1), (16, 1)]) (Some ex_symbols) ex_prog5
       two_maps_state 1
   \<and> bad_entry (rels_of [(0, 1), (0, 2), (32, 1), (16, 1)]) ex_prog5 2
   \<and> (\<exists>insn1. relo_loop 20 (rels_of [(0, 1), (0, 2), (32, 1), (16, 1)]) (Some ex_symbols)
                  [0..<1] ex_prog5 two_maps_state = Inr (0, insn1, two_maps_state)
         \<and> insn1 ! 0 = ex_ld\<lparr>src_reg := BPF_PSEUDO_MAP_FD, imm := 4\<rparr>)
   \<and> (\<exists>insn' st'.
         parse_relo_and_apply 20 (rels_of [(0, 1), (0, 2), (32, 1), (16, 1)]) (Some ex_symbols)
           (rels_shdr 5 4) ex_prog5 two_maps_state = Inr (1, insn', st')
         \<and> insn' ! 0 = ex_ld\<lparr>src_reg := BPF_PSEUDO_MAP_FD, imm := 5\<rparr>
         \<and> insn' ! 2 = ex_ld)"
proof -
  let ?data = "rels_of [(0, 1), (0, 2), (32, 1), (16, 1)]"
  let ?rel = "\<lparr>r_offset = 0, r_info = 1 * 2 ^ 32 + 1\<rparr>"
  let ?sy = "\<lparr>st_name = 1, st_value = 0\<rparr>"
  have ent: "sh_entsize (rels_shdr 5 4) \<noteq> 0" by (simp add: rels_shdr_def)
  have n: "nrels_of (rels_shdr 5 4) = 4" by code_simp
  have i: "(0::nat) < 2" by simp
  have b: "2 \<le> nrels_of (rels_shdr 5 4)" using n by simp
  have ok0: "entry_ok 20 ?data (Some ex_symbols) ex_prog5 two_maps_state 0" by code_simp
  have ok1: "entry_ok 20 ?data (Some ex_symbols) ex_prog5 two_maps_state 1" by code_simp
  have ok: "\<forall>j<2. entry_ok 20 ?data (Some ex_symbols) ex_prog5 two_maps_state j"
  proof (intro allI impI)
    fix j :: nat
    assume "j < 2"
    then have "j = 0 \<or> j = 1" by auto
    with ok0 ok1 show "entry_ok 20 ?data (Some ex_symbols) ex_prog5 two_maps_state j" by auto
  qed
  have bad: "bad_entry ?data ex_prog5 2" by code_simp
  then have stop: "2 < nrels_of (rels_shdr 5 4) \<longrightarrow> bad_entry ?data ex_prog5 2" by simp
  have rel: "gelf_getrel ?data 0 = Some ?rel" by code_simp
  have sy: "gelf_getsym (Some ex_symbols) (GELF_R_SYM (r_info ?rel)) = Some ?sy" by code_simp
  have idx: "insn_idx_of ?rel = 0" by code_simp
  have p0: "ex_prog5 ! 0 = ex_ld" "ex_prog5 ! 2 = ex_ld" by (simp_all add: ex_prog5_def)
  have v0: "map_fd two_maps_state ! map_idx_of 20 ?sy = 4" by code_simp
  have rel1: "gelf_getrel ?data 1 = Some \<lparr>r_offset = 0, r_info = 2 * 2 ^ 32 + 1\<rparr>" by code_simp
  have idx1: "insn_idx_of \<lparr>r_offset = 0, r_info = 2 * 2 ^ 32 + 1\<rparr> = 0" by code_simp
  have sy1: "gelf_getsym (Some ex_symbols) (GELF_R_SYM (r_info \<lparr>r_offset = 0, r_info = 2 * 2 ^ 32 + 1\<rparr>))
               = Some \<lparr>st_name = 7, st_value = 20\<rparr>"
    by code_simp
  have v1: "map_fd two_maps_state ! map_idx_of 20 \<lparr>st_name = 7, st_value = 20\<rparr> = 5" by code_simp
  note t = relocation_patches_insn [OF ent i b ok stop rel sy]
  from t [THEN conjunct2, THEN conjunct2, THEN conjunct1] obtain insn1 where
    r1: "relo_loop 20 ?data (Some ex_symbols) [0..<Suc 0] ex_prog5 two_maps_state
           = Inr (0, insn1, two_maps_state)"
    and e1: "insn1 ! insn_idx_of ?rel
               = (ex_prog5 ! insn_idx_of ?rel)
                   \<lparr>src_reg := BPF_PSEUDO_MAP_FD,
                    imm := map_fd two_maps_state ! map_idx_of 20 ?sy\<rparr>"
    by blast
  from e1 have e1': "insn1 ! 0 = ex_ld\<lparr>src_reg := BPF_PSEUDO_MAP_FD, imm := 4\<rparr>"
    unfolding idx v0 p0 .
  from r1 e1' have a:
    "\<exists>insn1. relo_loop 20 ?data (Some ex_symbols) [0..<1] ex_prog5 two_maps_state
               = Inr (0, insn1, two_maps_state)
         \<and> insn1 ! 0 = ex_ld\<lparr>src_reg := BPF_PSEUDO_MAP_FD, imm := 4\<rparr>"
    by auto
  from t [THEN conjunct2, THEN conjunct2, THEN conjunct2] obtain insn' st' j rel' sy' where
    w0: "parse_relo_and_apply 20 ?data (Some ex_symbols) (rels_shdr 5 4) ex_prog5 two_maps_state
          = Inr (if 2 < nrels_of (rels_shdr 5 4) then 1 else 0, insn', st')"
    and jb: "j < 2" and relj: "gelf_getrel ?data j = Some rel'"
    and syj: "gelf_getsym (Some ex_symbols) (GELF_R_SYM (r_info rel')) = Some sy'"
    and later0: "\<forall>j' rel''. j < j' \<and> j' < 2 \<and> gelf_getrel ?data j' = Some rel''
                  \<longrightarrow> insn_idx_of rel'' \<noteq> insn_idx_of ?rel"
    and fv0: "insn' ! insn_idx_of ?rel
               = (ex_prog5 ! insn_idx_of ?rel)
                   \<lparr>src_reg := BPF_PSEUDO_MAP_FD,
                    imm := map_fd two_maps_state ! map_idx_of 20 sy'\<rparr>"
    and unt: "\<forall>p. (\<forall>j rel'. j < 2 \<and> gelf_getrel ?data j = Some rel' \<longrightarrow> insn_idx_of rel' \<noteq> p)
                \<longrightarrow> insn' ! p = ex_prog5 ! p"
    by blast
  from w0 n have
    w: "parse_relo_and_apply 20 ?data (Some ex_symbols) (rels_shdr 5 4) ex_prog5 two_maps_state
          = Inr (1, insn', st')"
    by simp
  from later0 have later: "\<forall>j' rel''. j < j' \<and> j' < 2 \<and> gelf_getrel ?data j' = Some rel''
                  \<longrightarrow> insn_idx_of rel'' \<noteq> 0"
    unfolding idx .
  from fv0 have fv: "insn' ! 0 = ex_ld\<lparr>src_reg := BPF_PSEUDO_MAP_FD,
                                         imm := map_fd two_maps_state ! map_idx_of 20 sy'\<rparr>"
    unfolding idx p0 .
  have "j = 1"
  proof (rule ccontr)
    assume "j \<noteq> 1"
    with jb rel1 have
      "j < 1 \<and> (1::nat) < 2
       \<and> gelf_getrel ?data 1 = Some \<lparr>r_offset = 0, r_info = 2 * 2 ^ 32 + 1\<rparr>"
      by simp
    from later [rule_format, OF this] idx1 show False by simp
  qed
  with relj rel1 syj sy1 have "sy' = \<lparr>st_name = 7, st_value = 20\<rparr>" by simp
  with fv v1 have f0: "insn' ! 0 = ex_ld\<lparr>src_reg := BPF_PSEUDO_MAP_FD, imm := 5\<rparr>" by simp
  have "\<forall>j rel'. j < 2 \<and> gelf_getrel ?data j = Some rel' \<longrightarrow> insn_idx_of rel' \<noteq> 2"
  proof (intro allI impI)
    fix j :: nat and rel'
    assume h: "j < 2 \<and> gelf_getrel ?data j = Some rel'"
    then have "j = 0 \<or> j = 1" by auto
    with h rel rel1 idx idx1 show "insn_idx_of rel' \<noteq> 2" by auto
  qed
  with unt p0 have f2: "insn' ! 2 = ex_ld" by simp
  from ok0 ok1 bad a w f0 f2 show ?thesis by blast
qed

text \<open>
  The claim as stated fails for an entry that comes after an entry the function stops
  at. In this section the first entry points at the exit instruction and the second at
  the 64-bit immediate load at index 0: the function returns 1 at the first entry, and
  the load at index 0 is left without the map handle.
\<close>

theorem unreached_entry_counterexample:
  "gelf_getrel (rels_of [(32, 1), (0, 2)]) 1 = Some \<lparr>r_offset = 0, r_info = 2 * 2 ^ 32 + 1\<rparr>
   \<and> insn_idx_of \<lparr>r_offset = 0, r_info = 2 * 2 ^ 32 + 1\<rparr> = 0
   \<and> code (ex_prog5 ! 0) = BPF_LD_IMM_DW
   \<and> map_fd two_maps_state ! map_idx_of 20 \<lparr>st_name = 7, st_value = 20\<rparr> = 5
   \<and> (case parse_relo_and_apply 20 (rels_of [(32, 1), (0, 2)]) (Some ex_symbols)
             (rels_shdr 5 2) ex_prog5 two_maps_state of
        Inl f \<Rightarrow> False
      | Inr (r, insn', st') \<Rightarrow>
          r = 1 \<and> out st' = [Invalid_relo 4 0x95] \<and> insn' = ex_prog5
          \<and> src_reg (insn' ! 0) = 0 \<and> imm (insn' ! 0) = 0)"
  by code_simp

section \<open>Submission and attachment\<close>

subsection \<open>Claim C4\<close>

lemma probe_path_submissions:
  "probe_path k a b c event st = Inr (res, st') \<Longrightarrow>
     submissions (trace st') = submissions (trace st)"
  by (auto simp: probe_path_def sys_def Let_def submissions_def split: prod.splits if_splits)

lemma open_and_bind_submissions:
  "open_and_bind k attr buf event fd st = Inr (v, st') \<Longrightarrow>
     submissions (trace st') = submissions (trace st)"
  by (auto simp: open_and_bind_def atoi_def sys_def Let_def store_def submissions_def
           split: prod.splits if_splits sum.splits)

lemma load_and_attach_submissions:
  assumes run: "load_and_attach k event prog sz st = Inr (v, st')"
    and ev: "has_prefix ''kprobe/'' event \<or> has_prefix ''kretprobe/'' event"
  shows "submissions (trace st')
           = submissions (trace (snd (prog_load_retry k BPF_PROG_TYPE_KPROBE prog sz st)))"
proof -
  obtain res st1 where sub: "prog_load_retry k BPF_PROG_TYPE_KPROBE prog sz st = (res, st1)"
    by (cases "prog_load_retry k BPF_PROG_TYPE_KPROBE prog sz st")
  show ?thesis
  proof (cases res)
    case (Inl v')
    with run ev sub show ?thesis by (auto simp: load_and_attach_def Let_def)
  next
    case (Inr fd)
    with run ev sub show ?thesis
      by (auto simp: load_and_attach_def Let_def store_def
               split: if_splits sum.splits prod.splits
               dest!: probe_path_submissions open_and_bind_submissions)
  qed
qed

text \<open>
  Claim C4, as amended. \<open>prog_load_retry\<close> is the submission of \<^verbatim>\<open>load_and_attach\<close>,
  lines 59 to 88. Write \<open>c\<close> for the submission, \<open>G\<close> for the read of the locked-memory
  limit and \<open>S\<close> for the call that sets both its soft and its hard value to
  \<^verbatim>\<open>RLIM_INFINITY\<close>. When the first submission fails with \<^verbatim>\<open>EPERM\<close> and both \<open>G\<close> and
  \<open>S\<close> return 0, the calls made are exactly \<open>c, G, S, c\<close>: one retry, whose result is
  final. When it fails with \<^verbatim>\<open>EPERM\<close> and \<open>G\<close> or \<open>S\<close> does not return 0, there is no
  retry and the function returns \<open>-1\<close>. When it fails otherwise, or succeeds, \<open>c\<close> is
  the only call. A failure that is not \<^verbatim>\<open>EPERM\<close>, and the failure of the retry, print
  the \<^verbatim>\<open>errno\<close> of the failed submission and return \<open>-1\<close>. What follows the
  submission in \<^verbatim>\<open>load_and_attach\<close> submits nothing more.
\<close>

theorem submission_retried_once:
  "(let c = Bpf_prog_load t prog sz (license st) (kern_version st);
       G = Getrlimit RLIMIT_MEMLOCK;
       S = Setrlimit RLIMIT_MEMLOCK \<lparr>rlim_cur = RLIM_INFINITY, rlim_max = RLIM_INFINITY\<rparr>;
       r1 = k (trace st) c;
       g = k (trace st @ [c]) G;
       s = k (trace st @ [c, G]) S;
       r2 = k (trace st @ [c, G, S]) c;
       res = fst (prog_load_retry k t prog sz st);
       st' = snd (prog_load_retry k t prog sz st)
   in (ret r1 < 0 \<and> err r1 = EPERM \<and> ret g = 0 \<and> ret s = 0
         \<longrightarrow> trace st' = trace st @ [c, G, S, c]
             \<and> (0 \<le> ret r2 \<longrightarrow> res = Inr (ret r2)
                    \<and> out st' = out st @ [Prog_load_err_retry EPERM])
             \<and> (ret r2 < 0 \<longrightarrow> res = Inl (- 1)
                    \<and> out st' = out st @ [Prog_load_err_retry EPERM, Prog_load_err (err r2)]))
    \<and> (ret r1 < 0 \<and> err r1 = EPERM \<and> ret g = 0 \<and> ret s \<noteq> 0
         \<longrightarrow> trace st' = trace st @ [c, G, S] \<and> res = Inl (- 1))
    \<and> (ret r1 < 0 \<and> err r1 = EPERM \<and> ret g \<noteq> 0
         \<longrightarrow> trace st' = trace st @ [c, G] \<and> res = Inl (- 1))
    \<and> (ret r1 < 0 \<and> err r1 \<noteq> EPERM
         \<longrightarrow> trace st' = trace st @ [c] \<and> res = Inl (- 1)
             \<and> out st' = out st @ [Prog_load_err (err r1)])
    \<and> (0 \<le> ret r1
         \<longrightarrow> trace st' = trace st @ [c] \<and> res = Inr (ret r1) \<and> out st' = out st))
   \<and> (\<forall>event v st'.
         (has_prefix ''kprobe/'' event \<or> has_prefix ''kretprobe/'' event)
         \<and> load_and_attach k event prog sz st = Inr (v, st')
         \<longrightarrow> submissions (trace st')
             = submissions (trace (snd (prog_load_retry k BPF_PROG_TYPE_KPROBE prog sz st))))"
proof
  show "let c = Bpf_prog_load t prog sz (license st) (kern_version st);
       G = Getrlimit RLIMIT_MEMLOCK;
       S = Setrlimit RLIMIT_MEMLOCK \<lparr>rlim_cur = RLIM_INFINITY, rlim_max = RLIM_INFINITY\<rparr>;
       r1 = k (trace st) c;
       g = k (trace st @ [c]) G;
       s = k (trace st @ [c, G]) S;
       r2 = k (trace st @ [c, G, S]) c;
       res = fst (prog_load_retry k t prog sz st);
       st' = snd (prog_load_retry k t prog sz st)
   in (ret r1 < 0 \<and> err r1 = EPERM \<and> ret g = 0 \<and> ret s = 0
         \<longrightarrow> trace st' = trace st @ [c, G, S, c]
             \<and> (0 \<le> ret r2 \<longrightarrow> res = Inr (ret r2)
                    \<and> out st' = out st @ [Prog_load_err_retry EPERM])
             \<and> (ret r2 < 0 \<longrightarrow> res = Inl (- 1)
                    \<and> out st' = out st @ [Prog_load_err_retry EPERM, Prog_load_err (err r2)]))
    \<and> (ret r1 < 0 \<and> err r1 = EPERM \<and> ret g = 0 \<and> ret s \<noteq> 0
         \<longrightarrow> trace st' = trace st @ [c, G, S] \<and> res = Inl (- 1))
    \<and> (ret r1 < 0 \<and> err r1 = EPERM \<and> ret g \<noteq> 0
         \<longrightarrow> trace st' = trace st @ [c, G] \<and> res = Inl (- 1))
    \<and> (ret r1 < 0 \<and> err r1 \<noteq> EPERM
         \<longrightarrow> trace st' = trace st @ [c] \<and> res = Inl (- 1)
             \<and> out st' = out st @ [Prog_load_err (err r1)])
    \<and> (0 \<le> ret r1
         \<longrightarrow> trace st' = trace st @ [c] \<and> res = Inr (ret r1) \<and> out st' = out st)"
    by (simp add: prog_load_retry_def bpf_prog_load_def sys_def Let_def split: prod.splits)
next
  show "\<forall>event v st'.
         (has_prefix ''kprobe/'' event \<or> has_prefix ''kretprobe/'' event)
         \<and> load_and_attach k event prog sz st = Inr (v, st')
         \<longrightarrow> submissions (trace st')
             = submissions (trace (snd (prog_load_retry k BPF_PROG_TYPE_KPROBE prog sz st)))"
    using load_and_attach_submissions by blast
qed

theorem submission_retried_once_witness:
  "fst (prog_load_retry k_eperm_once BPF_PROG_TYPE_KPROBE ex_prog 24 init_state) = Inr 7
   \<and> trace (snd (prog_load_retry k_eperm_once BPF_PROG_TYPE_KPROBE ex_prog 24 init_state))
     = [Bpf_prog_load BPF_PROG_TYPE_KPROBE ex_prog 24 (license init_state) 0,
        Getrlimit RLIMIT_MEMLOCK,
        Setrlimit RLIMIT_MEMLOCK \<lparr>rlim_cur = RLIM_INFINITY, rlim_max = RLIM_INFINITY\<rparr>,
        Bpf_prog_load BPF_PROG_TYPE_KPROBE ex_prog 24 (license init_state) 0]"
  using submission_retried_once
          [where k = k_eperm_once and st = init_state and t = BPF_PROG_TYPE_KPROBE
             and prog = ex_prog and sz = 24, THEN conjunct1]
  by (simp add: Let_def k_eperm_once_def k_good_def init_state_def EPERM_def)

text \<open>
  The claim as stated fails when the limit cannot be raised: the submission fails with
  \<^verbatim>\<open>EPERM\<close>, \<^verbatim>\<open>setrlimit\<close> fails, and the program is submitted once only.
\<close>

theorem no_retry_counterexample:
  "calls_made (load_and_attach k_no_raise ''kprobe/do_sys_open'' ex_prog 24 init_state)
     = Some [Bpf_prog_load 2 ex_prog 24 (license init_state) 0, Getrlimit 8,
             Setrlimit 8 \<lparr>rlim_cur = 2 ^ 64 - 1, rlim_max = 2 ^ 64 - 1\<rparr>]
   \<and> report (load_and_attach k_no_raise ''kprobe/do_sys_open'' ex_prog 24 init_state)
     = Some (- 1, [Prog_load_err_retry 1, Setrlimit_failed 1])"
  by code_simp

subsection \<open>Claim C8\<close>

lemma has_prefix_take:
  "has_prefix ''kprobe/'' s \<longleftrightarrow> take 7 s = ''kprobe/''"
  "has_prefix ''kretprobe/'' s \<longleftrightarrow> take 10 s = ''kretprobe/''"
  "has_prefix ''tracepoint/'' s \<longleftrightarrow> take 11 s = ''tracepoint/''"
  "has_prefix ''xdp'' s \<longleftrightarrow> take 3 s = ''xdp''"
  "has_prefix ''perf_event'' s \<longleftrightarrow> take 10 s = ''perf_event''"
  "has_prefix ''socket'' s \<longleftrightarrow> take 6 s = ''socket''"
  by (simp_all add: has_prefix_def numeral_eq_Suc)

lemma kprobe_prefixes:
  assumes "event = ''kprobe/'' @ sy"
  shows "has_prefix ''kprobe/'' event" "\<not> has_prefix ''kretprobe/'' event"
    "\<not> has_prefix ''xdp'' event" "\<not> has_prefix ''perf_event'' event" "drop 7 event = sy"
  using assms by (simp_all add: has_prefix_take)

lemma kretprobe_prefixes:
  assumes "event = ''kretprobe/'' @ sy"
  shows "\<not> has_prefix ''kprobe/'' event" "has_prefix ''kretprobe/'' event"
    "\<not> has_prefix ''xdp'' event" "\<not> has_prefix ''perf_event'' event" "drop 10 event = sy"
  using assms by (simp_all add: has_prefix_take)

lemma tracepoint_prefixes:
  assumes "has_prefix ''tracepoint/'' event"
  shows "\<not> has_prefix ''kprobe/'' event" "\<not> has_prefix ''kretprobe/'' event"
proof -
  from assms have t: "take 11 event = ''tracepoint/''" by (simp add: has_prefix_take)
  have "take 7 event = take 7 (take 11 event)" "take 10 event = take 10 (take 11 event)"
    by simp_all
  with t have "take 7 event = ''tracepo''" "take 10 event = ''tracepoint''" by simp_all
  then show "\<not> has_prefix ''kprobe/'' event" "\<not> has_prefix ''kretprobe/'' event"
    by (simp_all add: has_prefix_take)
qed


lemma laa_kprobe:
  assumes sub: "prog_load_retry k BPF_PROG_TYPE_KPROBE prog sz st = (Inr fd, st1)"
    and cap: "prog_cnt st1 < length (prog_fd st1)"
    and ev: "has_prefix ''kprobe/'' event \<or> has_prefix ''kretprobe/'' event"
    and nx: "\<not> has_prefix ''xdp'' event" "\<not> has_prefix ''perf_event'' event"
  shows "load_and_attach k event prog sz st
     = (case probe_path k (has_prefix ''kprobe/'' event) (has_prefix ''kretprobe/'' event)
               (has_prefix ''tracepoint/'' event) event
               (st1\<lparr>prog_fd := (prog_fd st1)[prog_cnt st1 := fd],
                    prog_cnt := prog_cnt st1 + 1\<rparr>) of
          Inl f \<Rightarrow> Inl f
        | Inr (Inl v, st3) \<Rightarrow> Inr (v, st3)
        | Inr (Inr (buf, event1), st3) \<Rightarrow> open_and_bind k initial_attr buf event1 fd st3)"
  using ev nx cap by (auto simp: load_and_attach_def Let_def sub store_def)


lemma probe_path_kprobe:
  "is_kprobe \<or> is_kretprobe \<Longrightarrow>
   probe_path k is_kprobe is_kretprobe is_tp event0 st
     = (let event = (if is_kprobe then drop 7 event0 else drop 10 event0);
            c = (if is_kprobe then CHR ''p'' else CHR ''r'');
            r = k (trace st) (System (kprobe_cmd c event));
            st1 = snd (sys k (System (kprobe_cmd c event)) st);
            buf = DEBUGFS @ ''events/kprobes/'' @ [c] @ event @ ''/id''
        in if event = [] then Inr (Inl (- 1), st\<lparr>out := out st @ [Event_name_empty]\<rparr>)
           else if ret r < 0
           then Inr (Inl (- 1), st1\<lparr>out := out st1 @ [Failed_create_kprobe event (errno st1)]\<rparr>)
           else if length buf < 256 then Inr (Inr (buf, event), st1) else Inl Out_of_bounds)"
  by (simp add: probe_path_def Let_def sys_def)

text \<open>
  Claim C8, as amended. Let the name be \<^verbatim>\<open>kprobe/\<close> (7 characters) or \<^verbatim>\<open>kretprobe/\<close>
  (10 characters) followed by \<open>sy\<close>. When the submission has succeeded, \<open>sy\<close> is the
  symbol \<^verbatim>\<open>load_and_attach\<close> goes on with: if \<open>sy\<close> is empty it prints "event name
  cannot be empty" and returns \<open>-1\<close> having made no further call; otherwise its next
  call registers the probe \<open>sy\<close>, and when that succeeds it looks for the identifier
  under \<^verbatim>\<open>events/kprobes/p\<close>\<open>sy\<close> or \<^verbatim>\<open>events/kprobes/r\<close>\<open>sy\<close>. When the submission has
  failed, that failure is what the function returns, for an empty \<open>sy\<close> too. A name that
  starts with \<^verbatim>\<open>tracepoint/\<close> is refused as an unknown event before anything is called.
\<close>

theorem probe_name_stripping:
  "((event = ''kprobe/'' @ sy \<or> event = ''kretprobe/'' @ sy)
      \<and> prog_load_retry k BPF_PROG_TYPE_KPROBE prog sz st = (Inr fd, st1)
      \<and> prog_cnt st1 < length (prog_fd st1)
    \<longrightarrow> (let c = (if event = ''kprobe/'' @ sy then CHR ''p'' else CHR ''r'');
              st2 = st1\<lparr>prog_fd := (prog_fd st1)[prog_cnt st1 := fd],
                        prog_cnt := prog_cnt st1 + 1\<rparr>;
              r = k (trace st1) (System (kprobe_cmd c sy));
              st3 = snd (sys k (System (kprobe_cmd c sy)) st2);
              buf = DEBUGFS @ ''events/kprobes/'' @ [c] @ sy @ ''/id''
          in (sy = [] \<longrightarrow>
                load_and_attach k event prog sz st
                  = Inr (- 1, st2\<lparr>out := out st2 @ [Event_name_empty]\<rparr>))
           \<and> (sy \<noteq> [] \<and> ret r < 0 \<longrightarrow>
                load_and_attach k event prog sz st
                  = Inr (- 1, st3\<lparr>out := out st3 @ [Failed_create_kprobe sy (errno st3)]\<rparr>))
           \<and> (sy \<noteq> [] \<and> 0 \<le> ret r \<and> length buf < 256 \<longrightarrow>
                load_and_attach k event prog sz st
                  = open_and_bind k initial_attr buf sy fd st3)))
   \<and> ((event = ''kprobe/'' @ sy \<or> event = ''kretprobe/'' @ sy)
      \<and> prog_load_retry k BPF_PROG_TYPE_KPROBE prog sz st = (Inl v, st1)
    \<longrightarrow> load_and_attach k event prog sz st = Inr (v, st1))
   \<and> (has_prefix ''tracepoint/'' event
    \<longrightarrow> load_and_attach k event prog sz st
          = Inr (- 1, st\<lparr>out := out st @ [Unknown_event event]\<rparr>))"
proof (intro conjI impI)
  assume a: "(event = ''kprobe/'' @ sy \<or> event = ''kretprobe/'' @ sy)
      \<and> prog_load_retry k BPF_PROG_TYPE_KPROBE prog sz st = (Inr fd, st1)
      \<and> prog_cnt st1 < length (prog_fd st1)"
  then have sub: "prog_load_retry k BPF_PROG_TYPE_KPROBE prog sz st = (Inr fd, st1)"
    and cap: "prog_cnt st1 < length (prog_fd st1)"
    and ev: "event = ''kprobe/'' @ sy \<or> event = ''kretprobe/'' @ sy" by simp_all
  let ?st2 = "st1\<lparr>prog_fd := (prog_fd st1)[prog_cnt st1 := fd], prog_cnt := prog_cnt st1 + 1\<rparr>"
  from ev show "let c = (if event = ''kprobe/'' @ sy then CHR ''p'' else CHR ''r'');
              st2 = st1\<lparr>prog_fd := (prog_fd st1)[prog_cnt st1 := fd],
                        prog_cnt := prog_cnt st1 + 1\<rparr>;
              r = k (trace st1) (System (kprobe_cmd c sy));
              st3 = snd (sys k (System (kprobe_cmd c sy)) st2);
              buf = DEBUGFS @ ''events/kprobes/'' @ [c] @ sy @ ''/id''
          in (sy = [] \<longrightarrow>
                load_and_attach k event prog sz st
                  = Inr (- 1, st2\<lparr>out := out st2 @ [Event_name_empty]\<rparr>))
           \<and> (sy \<noteq> [] \<and> ret r < 0 \<longrightarrow>
                load_and_attach k event prog sz st
                  = Inr (- 1, st3\<lparr>out := out st3 @ [Failed_create_kprobe sy (errno st3)]\<rparr>))
           \<and> (sy \<noteq> [] \<and> 0 \<le> ret r \<and> length buf < 256 \<longrightarrow>
                load_and_attach k event prog sz st
                  = open_and_bind k initial_attr buf sy fd st3)"
  proof
    assume e: "event = ''kprobe/'' @ sy"
    note hp = kprobe_prefixes [OF e]
    have c: "(event = ''kprobe/'' @ sy) = True" using e by simp
    have pp: "probe_path k True False (has_prefix ''tracepoint/'' event) event ?st2
       = (let r = k (trace st1) (System (kprobe_cmd CHR ''p'' sy));
            st3 = snd (sys k (System (kprobe_cmd CHR ''p'' sy)) ?st2);
            buf = DEBUGFS @ ''events/kprobes/'' @ ''p'' @ sy @ ''/id''
        in if sy = [] then Inr (Inl (- 1), ?st2\<lparr>out := out ?st2 @ [Event_name_empty]\<rparr>)
           else if ret r < 0
           then Inr (Inl (- 1), st3\<lparr>out := out st3 @ [Failed_create_kprobe sy (errno st3)]\<rparr>)
           else if length buf < 256 then Inr (Inr (buf, sy), st3) else Inl Out_of_bounds)"
      by (simp add: probe_path_kprobe hp(5) Let_def)
    have "load_and_attach k event prog sz st
       = (case probe_path k True False (has_prefix ''tracepoint/'' event) event ?st2 of
          Inl f \<Rightarrow> Inl f
        | Inr (Inl v, st3) \<Rightarrow> Inr (v, st3)
        | Inr (Inr (buf, event1), st3) \<Rightarrow> open_and_bind k initial_attr buf event1 fd st3)"
      using laa_kprobe [OF sub cap _ hp(3,4)] hp(1,2) by simp
    then show ?thesis unfolding pp c by (simp add: Let_def)
  next
    assume e: "event = ''kretprobe/'' @ sy"
    note hp = kretprobe_prefixes [OF e]
    have c: "(event = ''kprobe/'' @ sy) = False" using e by simp
    have pp: "probe_path k False True (has_prefix ''tracepoint/'' event) event ?st2
       = (let r = k (trace st1) (System (kprobe_cmd CHR ''r'' sy));
            st3 = snd (sys k (System (kprobe_cmd CHR ''r'' sy)) ?st2);
            buf = DEBUGFS @ ''events/kprobes/'' @ ''r'' @ sy @ ''/id''
        in if sy = [] then Inr (Inl (- 1), ?st2\<lparr>out := out ?st2 @ [Event_name_empty]\<rparr>)
           else if ret r < 0
           then Inr (Inl (- 1), st3\<lparr>out := out st3 @ [Failed_create_kprobe sy (errno st3)]\<rparr>)
           else if length buf < 256 then Inr (Inr (buf, sy), st3) else Inl Out_of_bounds)"
      by (simp add: probe_path_kprobe hp(5) Let_def)
    have "load_and_attach k event prog sz st
       = (case probe_path k False True (has_prefix ''tracepoint/'' event) event ?st2 of
          Inl f \<Rightarrow> Inl f
        | Inr (Inl v, st3) \<Rightarrow> Inr (v, st3)
        | Inr (Inr (buf, event1), st3) \<Rightarrow> open_and_bind k initial_attr buf event1 fd st3)"
      using laa_kprobe [OF sub cap _ hp(3,4)] hp(1,2) by simp
    then show ?thesis unfolding pp c by (simp add: Let_def)
  qed
next
  assume a: "(event = ''kprobe/'' @ sy \<or> event = ''kretprobe/'' @ sy)
      \<and> prog_load_retry k BPF_PROG_TYPE_KPROBE prog sz st = (Inl v, st1)"
  then have "has_prefix ''kprobe/'' event \<or> has_prefix ''kretprobe/'' event"
    using kprobe_prefixes(1) [of event sy] kretprobe_prefixes(2) [of event sy] by auto
  with a show "load_and_attach k event prog sz st = Inr (v, st1)"
    by (auto simp: load_and_attach_def Let_def)
next
  assume "has_prefix ''tracepoint/'' event"
  from tracepoint_prefixes [OF this]
  show "load_and_attach k event prog sz st
          = Inr (- 1, st\<lparr>out := out st @ [Unknown_event event]\<rparr>)"
    by (simp add: load_and_attach_def Let_def)
qed

theorem probe_name_stripping_witness:
  "fst (prog_load_retry k_good BPF_PROG_TYPE_KPROBE ex_prog 24 init_state) = Inr 3
   \<and> report (load_and_attach k_good ''kretprobe/'' ex_prog 24 init_state)
       = Some (- 1, [Event_name_empty])
   \<and> calls_made (load_and_attach k_good ''kretprobe/'' ex_prog 24 init_state)
       = Some [Bpf_prog_load BPF_PROG_TYPE_KPROBE ex_prog 24 (license init_state) 0]"
proof -
  let ?st1 = "snd (prog_load_retry k_good BPF_PROG_TYPE_KPROBE ex_prog 24 init_state)"
  have f: "fst (prog_load_retry k_good BPF_PROG_TYPE_KPROBE ex_prog 24 init_state) = Inr 3"
    by code_simp
  then have sub: "prog_load_retry k_good BPF_PROG_TYPE_KPROBE ex_prog 24 init_state
                    = (Inr 3, ?st1)"
    by (simp add: prod_eq_iff)
  have cap: "prog_cnt ?st1 < length (prog_fd ?st1)" by code_simp
  have o: "out ?st1 = []" by code_simp
  have t: "trace ?st1 = [Bpf_prog_load BPF_PROG_TYPE_KPROBE ex_prog 24 (license init_state) 0]"
    by code_simp
  have e: "''kretprobe/'' = ''kretprobe/'' @ ([] :: string)" by simp
  from probe_name_stripping
         [where event = "''kretprobe/''" and sy = "[]" and k = k_good and prog = ex_prog
            and sz = 24 and st = init_state and fd = 3 and ?st1.0 = ?st1]
       sub cap e
  have "load_and_attach k_good ''kretprobe/'' ex_prog 24 init_state
          = Inr (- 1, ?st1\<lparr>prog_fd := (prog_fd ?st1)[prog_cnt ?st1 := 3],
                          prog_cnt := prog_cnt ?st1 + 1,
                          out := out ?st1 @ [Event_name_empty]\<rparr>)"
    by (simp add: Let_def)
  with f o t show ?thesis by (simp add: report_def calls_made_def)
qed

text \<open>
  The claim as stated fails on a tracepoint name, which is refused as unknown whether or
  not anything follows the prefix, and on a probe name that is only the prefix when the
  submission fails: the submission error is reported, not the empty name.
\<close>

theorem event_name_counterexample:
  "report (load_and_attach k_good ''tracepoint/'' ex_prog 24 init_state)
     = Some (- 1, [Unknown_event ''tracepoint/''])
   \<and> report (load_and_attach k_good ''tracepoint/sched/sched_switch'' ex_prog 24 init_state)
     = Some (- 1, [Unknown_event ''tracepoint/sched/sched_switch''])
   \<and> calls_made (load_and_attach k_good ''tracepoint/sched/sched_switch'' ex_prog 24 init_state)
     = Some []
   \<and> report (load_and_attach k_reject ''kprobe/'' ex_prog 24 init_state)
     = Some (- 1, [Prog_load_err 22])"
  by code_simp

section \<open>The first loop: license, version, maps\<close>

subsection \<open>Claim C6\<close>

text \<open>
  Claim C6 asks for a bounded copy of the \<^verbatim>\<open>license\<close> section that rejects content longer
  than the buffer. The code copies \<^verbatim>\<open>d_size\<close> bytes into \<^verbatim>\<open>char license[128]\<close> without
  looking at \<^verbatim>\<open>d_size\<close>: a section of 128 bytes fills the buffer and the load goes on, a
  section of 129 bytes is written past the end of the buffer, and nothing is rejected.
  The sibling branch for \<^verbatim>\<open>version\<close> does check \<^verbatim>\<open>d_size\<close> before its copy.
\<close>

theorem license_copy_unbounded:
  "load_bpf_file 20 (lib_of (elf_of [null_scn, license_scn 129])) k_good ''prog.o'' init_state
     = Inl Out_of_bounds
   \<and> report (load_bpf_file 20 (lib_of (elf_of [null_scn, license_scn 128])) k_good ''prog.o''
               init_state)
     = Some (0, [])"
  by code_simp

subsection \<open>The first loop, section by section\<close>

lemma load_bpf_file_opened:
  assumes "elf_version lib \<noteq> EV_NONE"
    and "0 \<le> ret (k (trace st) (Open_rdonly path))"
    and "elf_begin lib (ret (k (trace st) (Open_rdonly path))) = Some elf"
    and "e_shnum elf = Some shnum"
  shows "load_bpf_file msz lib k path st
     = (case scan_sections msz k elf [1..<shnum] (None, after_open k path st) of
          Inl f \<Rightarrow> Inl f
        | Inr (Return v (symbols, st3)) \<Rightarrow> Inr (v, st3)
        | Inr (Next (symbols, st3)) \<Rightarrow>
            load_programs msz k elf shnum (ret (k (trace st) (Open_rdonly path))) symbols st3)"
  using assms
  by (simp add: load_bpf_file_def after_open_def sys_def Let_def)

lemma scan_sections_append:
  "scan_sections msz k elf (xs @ ys) ss
     = (case scan_sections msz k elf xs ss of
          Inl f \<Rightarrow> Inl f
        | Inr (Return v ss') \<Rightarrow> Inr (Return v ss')
        | Inr (Next ss') \<Rightarrow> scan_sections msz k elf ys ss')"
  by (induction xs arbitrary: ss) (auto split: sum.splits step.splits)

lemma scan_section_trace:
  assumes "scan_section msz k elf i (sy, st) = Inr res"
    and "\<forall>h d. get_sec elf i \<noteq> Inr (''maps'', h, d)"
  shows "trace (snd (step_state res)) = trace st"
  using assms
  by (auto simp: scan_section_def mark_processed_def store_def memcpy_license_def
                 memcpy_version_def
           split: sum.splits prod.splits if_splits)

lemma scan_sections_trace:
  "scan_sections msz k elf is (sy, st) = Inr res \<Longrightarrow>
   (\<forall>j\<in>set is. \<forall>h d. get_sec elf j \<noteq> Inr (''maps'', h, d)) \<Longrightarrow>
   trace (snd (step_state res)) = trace st"
proof (induction "is" arbitrary: sy st)
  case Nil
  then show ?case by auto
next
  case (Cons i rest)
  from Cons.prems(1) obtain r1 where
    s: "scan_section msz k elf i (sy, st) = Inr r1"
    by (auto split: sum.splits)
  from Cons.prems(2) have nm: "\<forall>h d. get_sec elf i \<noteq> Inr (''maps'', h, d)" by simp
  note t1 = scan_section_trace [OF s nm]
  show ?case
  proof (cases r1)
    case (Return v x)
    with Cons.prems(1) s t1 show ?thesis by auto
  next
    case (Next x)
    obtain sy1 st1 where x: "x = (sy1, st1)" by (cases x)
    with Cons.prems(1) s Next have "scan_sections msz k elf rest (sy1, st1) = Inr res" by simp
    from Cons.IH [OF this] Cons.prems(2) t1 Next x show ?thesis by simp
  qed
qed

lemma scan_section_bad_version:
  assumes "get_sec elf i = Inr (''version'', shdr, data)" and "d_size data \<noteq> 4"
    and "i < length (processed_sec st)"
  shows "scan_section msz k elf i (sy, st)
           = Inr (Return 1 (sy, st\<lparr>processed_sec := (processed_sec st)[i := True],
                                    out := out st @ [Invalid_version_size (d_size data)]\<rparr>))"
  using assms by (simp add: scan_section_def mark_processed_def store_def)

lemma upt_split_from: "a \<le> i \<Longrightarrow> i < n \<Longrightarrow> [a..<n] = [a..<i] @ i # [Suc i..<n]"
proof -
  assume a: "a \<le> i" and i: "i < n"
  have "[a..<i + (n - i)] = [a..<i] @ [i..<i + (n - i)]"
    using a by (rule upt_add_eq_append)
  with i show ?thesis by (simp add: upt_conv_Cons)
qed

subsection \<open>Claim C7\<close>

text \<open>
  Claim C7, as amended. The first loop takes the sections in index order. When it
  reaches a section named \<^verbatim>\<open>version\<close> that \<^verbatim>\<open>get_sec\<close> can read (so its size is not 0)
  and whose data is not 4 bytes long, the sections before it having been scanned
  without a \<^verbatim>\<open>return\<close>, \<^verbatim>\<open>load_bpf_file\<close> marks the section, prints the size and returns
  1; no later section is looked at. No map has been created at that point if no section
  named \<^verbatim>\<open>maps\<close> comes before it: the only calls made are the opening of the file and
  the clearing of the probes. A \<^verbatim>\<open>maps\<close> section with a smaller index has been
  provisioned already.
\<close>

theorem bad_version_aborts:
  assumes lib: "elf_version lib \<noteq> EV_NONE"
    and opn: "0 \<le> ret (k (trace st) (Open_rdonly path))"
    and elf: "elf_begin lib (ret (k (trace st) (Open_rdonly path))) = Some elf"
    and hdr: "e_shnum elf = Some shnum"
    and i: "1 \<le> i" "i < shnum"
    and ver: "get_sec elf i = Inr (''version'', shdr, data)"
    and bad: "d_size data \<noteq> 4"
    and pre: "scan_sections msz k elf [1..<i] (None, after_open k path st) = Inr (Next (sy, st1))"
    and cap: "i < length (processed_sec st1)"
  shows "load_bpf_file msz lib k path st
           = Inr (1, st1\<lparr>processed_sec := (processed_sec st1)[i := True],
                          out := out st1 @ [Invalid_version_size (d_size data)]\<rparr>)
         \<and> ((\<forall>j. 1 \<le> j \<and> j < i \<longrightarrow> (\<forall>h d. get_sec elf j \<noteq> Inr (''maps'', h, d)))
              \<longrightarrow> trace st1 = trace st @ [Open_rdonly path, System clear_kprobes_cmd])"
proof
  have "scan_sections msz k elf [1..<shnum] (None, after_open k path st)
          = Inr (Return 1 (sy, st1\<lparr>processed_sec := (processed_sec st1)[i := True],
                                    out := out st1 @ [Invalid_version_size (d_size data)]\<rparr>))"
    unfolding upt_split_from [OF i] scan_sections_append
    using pre scan_section_bad_version [OF ver bad cap] by simp
  with load_bpf_file_opened [where k = k and st = st and path = path, OF lib opn elf hdr]
  show "load_bpf_file msz lib k path st
           = Inr (1, st1\<lparr>processed_sec := (processed_sec st1)[i := True],
                          out := out st1 @ [Invalid_version_size (d_size data)]\<rparr>)"
    by simp
next
  show "(\<forall>j. 1 \<le> j \<and> j < i \<longrightarrow> (\<forall>h d. get_sec elf j \<noteq> Inr (''maps'', h, d)))
              \<longrightarrow> trace st1 = trace st @ [Open_rdonly path, System clear_kprobes_cmd]"
  proof
    assume "\<forall>j. 1 \<le> j \<and> j < i \<longrightarrow> (\<forall>h d. get_sec elf j \<noteq> Inr (''maps'', h, d))"
    then have "\<forall>j\<in>set [1..<i]. \<forall>h d. get_sec elf j \<noteq> Inr (''maps'', h, d)" by simp
    from scan_sections_trace [OF pre this]
    show "trace st1 = trace st @ [Open_rdonly path, System clear_kprobes_cmd]"
      by (simp add: after_open_def sys_def Let_def)
  qed
qed

theorem bad_version_aborts_witness:
  "get_sec obj_version_first 2
     = Inr (''version'', \<lparr>sh_type = 1, sh_size = 3, sh_info = 0, sh_entsize = 0\<rparr>,
            \<lparr>d_buf = Chars [1, 1, 1], d_size = 3\<rparr>)
   \<and> report (load_bpf_file 20 (lib_of obj_version_first) k_good ''prog.o'' init_state)
       = Some (1, [Invalid_version_size 3])
   \<and> calls_made (load_bpf_file 20 (lib_of obj_version_first) k_good ''prog.o'' init_state)
       = Some [Open_rdonly ''prog.o'', System clear_kprobes_cmd]"
proof -
  let ?lib = "lib_of obj_version_first"
  have lib: "elf_version ?lib \<noteq> EV_NONE" by (simp add: lib_of_def EV_NONE_def)
  have r: "ret (k_good (trace init_state) (Open_rdonly ''prog.o'')) = 3"
    by (simp add: k_good_def init_state_def)
  have opn: "0 \<le> ret (k_good (trace init_state) (Open_rdonly ''prog.o''))" using r by simp
  have elf: "elf_begin ?lib (ret (k_good (trace init_state) (Open_rdonly ''prog.o'')))
               = Some obj_version_first"
    by (simp add: lib_of_def)
  have hdr: "e_shnum obj_version_first = Some 4" by (simp add: obj_version_first_def elf_of_def)
  have ver: "get_sec obj_version_first 2
     = Inr (''version'', \<lparr>sh_type = 1, sh_size = 3, sh_info = 0, sh_entsize = 0\<rparr>,
            \<lparr>d_buf = Chars [1, 1, 1], d_size = 3\<rparr>)"
    by code_simp
  have bad: "d_size \<lparr>d_buf = Chars [1, 1, 1], d_size = 3\<rparr> \<noteq> 4" by simp
  have ev: "(case scan_sections 20 k_good obj_version_first [1..<2]
                    (None, after_open k_good ''prog.o'' init_state) of
               Inr (Next (sy, st1)) \<Rightarrow> length (processed_sec st1) = 128 \<and> out st1 = []
             | _ \<Rightarrow> False)"
    by code_simp
  then obtain sy st1 where
    pre: "scan_sections 20 k_good obj_version_first [1..<2]
            (None, after_open k_good ''prog.o'' init_state) = Inr (Next (sy, st1))"
    and len: "length (processed_sec st1) = 128" and o: "out st1 = []"
    by (auto split: sum.splits step.splits)
  have cap: "2 < length (processed_sec st1)" using len by simp
  have g1: "get_sec obj_version_first 1
              = Inr (''license'', \<lparr>sh_type = 1, sh_size = 4, sh_info = 0, sh_entsize = 0\<rparr>,
                     \<lparr>d_buf = Chars [0x47, 0x47, 0x47, 0x47], d_size = 4\<rparr>)"
    by code_simp
  have nomaps: "\<forall>j. 1 \<le> j \<and> j < 2 \<longrightarrow>
                  (\<forall>h d. get_sec obj_version_first j \<noteq> Inr (''maps'', h, d))"
  proof (intro allI impI)
    fix j :: nat and h d
    assume "1 \<le> j \<and> j < 2"
    then have "j = 1" by simp
    with g1 show "get_sec obj_version_first j \<noteq> Inr (''maps'', h, d)" by simp
  qed
  have t0: "trace init_state = []" by (simp add: init_state_def)
  from bad_version_aborts
         [where k = k_good and st = init_state and path = "''prog.o''" and msz = 20,
          OF lib opn elf hdr _ _ ver bad pre cap]
       nomaps o t0
  have "load_bpf_file 20 ?lib k_good ''prog.o'' init_state
          = Inr (1, st1\<lparr>processed_sec := (processed_sec st1)[2 := True],
                         out := [Invalid_version_size 3]\<rparr>)"
    and "trace st1 = [Open_rdonly ''prog.o'', System clear_kprobes_cmd]"
    by simp_all
  with ver show ?thesis by (simp add: report_def calls_made_def)
qed

text \<open>
  The claim as stated fails when the maps section comes first, as it does when the maps
  are declared before the version in the source of the object: the map is created, and
  then the load returns 1. It also fails for a \<^verbatim>\<open>version\<close> section of no bytes, which
  \<^verbatim>\<open>get_sec\<close> makes the loop skip.
\<close>

theorem map_created_before_version_counterexample:
  "created (load_bpf_file 20 (lib_of obj_maps_first) k_good ''prog.o'' init_state)
     = [Bpf_create_map 1 4 8 10 0]
   \<and> report (load_bpf_file 20 (lib_of obj_maps_first) k_good ''prog.o'' init_state)
     = Some (1, [Invalid_version_size 3])
   \<and> report (load_bpf_file 20 (lib_of obj_version_empty) k_good ''prog.o'' init_state)
     = Some (0, [])"
  by code_simp

section \<open>The second and the third loop\<close>

subsection \<open>What \<^verbatim>\<open>load_and_attach\<close> leaves alone\<close>

lemma sys_frame:
  "sys k c st = (r, st') \<Longrightarrow>
     processed_sec st' = processed_sec st \<and> loaded_secs st' = loaded_secs st"
  by (auto simp: sys_def Let_def)

lemma prog_load_retry_frame:
  "prog_load_retry k t prog sz st = (res, st') \<Longrightarrow>
     processed_sec st' = processed_sec st \<and> loaded_secs st' = loaded_secs st"
  by (auto simp: prog_load_retry_def bpf_prog_load_def sys_def Let_def
           split: prod.splits if_splits sum.splits)

lemma probe_path_frame:
  "probe_path k a b c event st = Inr (res, st') \<Longrightarrow>
     processed_sec st' = processed_sec st \<and> loaded_secs st' = loaded_secs st"
  by (auto simp: probe_path_def sys_def Let_def split: prod.splits if_splits)

lemma open_and_bind_frame:
  "open_and_bind k attr buf event fd st = Inr (v, st') \<Longrightarrow>
     processed_sec st' = processed_sec st \<and> loaded_secs st' = loaded_secs st"
  by (auto simp: open_and_bind_def atoi_def sys_def Let_def store_def
           split: prod.splits if_splits sum.splits)

lemma load_and_attach_frame:
  assumes "load_and_attach k event prog sz st = Inr (v, st')"
  shows "processed_sec st' = processed_sec st \<and> loaded_secs st' = loaded_secs st"
proof (cases "has_prefix ''kprobe/'' event \<or> has_prefix ''kretprobe/'' event")
  case False
  with assms show ?thesis by (auto simp: load_and_attach_def Let_def)
next
  case True
  obtain res st1 where sub: "prog_load_retry k BPF_PROG_TYPE_KPROBE prog sz st = (res, st1)"
    by (cases "prog_load_retry k BPF_PROG_TYPE_KPROBE prog sz st")
  note f1 = prog_load_retry_frame [OF sub]
  show ?thesis
  proof (cases res)
    case (Inl v')
    with assms True sub f1 show ?thesis by (auto simp: load_and_attach_def Let_def)
  next
    case (Inr fd)
    with assms True sub f1 show ?thesis
      by (auto simp: load_and_attach_def Let_def store_def
               split: if_splits sum.splits prod.splits
               dest!: probe_path_frame open_and_bind_frame)
  qed
qed


lemma get_sec_set_insns:
  "get_sec (set_insns elf j xs) i
     = (case get_sec elf i of
          Inl e \<Rightarrow> Inl e
        | Inr (n, h, d) \<Rightarrow> Inr (n, h, if i = j then d\<lparr>d_buf := Insns xs\<rparr> else d))"
proof (cases "i < length (scns elf)")
  case False
  then show ?thesis by (simp add: get_sec_def set_insns_def)
next
  case True
  show ?thesis
  proof (cases "i = j")
    case eq: True
    with True show ?thesis
      by (simp add: get_sec_def set_insns_def split: option.splits)
  next
    case False
    with True show ?thesis
      by (simp add: get_sec_def set_insns_def split: option.splits)
  qed
qed

lemma rel_target_set_insns: "rel_target (set_insns elf j xs) i = rel_target elf i"
  by (auto simp: rel_target_def get_sec_set_insns split: sum.splits prod.splits)

lemma parse_relo_frame:
  "parse_relo_and_apply msz data symbols shdr insn st = Inr (r, insn', st') \<Longrightarrow>
     processed_sec st' = processed_sec st \<and> loaded_secs st' = loaded_secs st
     \<and> trace st' = trace st"
  by (auto simp: parse_relo_and_apply_def split: if_splits dest!: relo_loop_frame)

lemma mark_processed_Inr:
  "mark_processed i st = Inr st' \<Longrightarrow>
     i < length (processed_sec st) \<and> st' = st\<lparr>processed_sec := (processed_sec st)[i := True]\<rparr>"
  by (auto simp: mark_processed_def store_def split: if_splits)

lemma relo_section_effect:
  assumes run: "relo_section msz k symbols i (elf, st) = Inr (elf', st')"
  shows "(\<forall>i'. rel_target elf' i' = rel_target elf i')
       \<and> (case rel_target elf i of
            None \<Rightarrow> st' = st \<and> elf' = elf
          | Some t \<Rightarrow>
              i < length (processed_sec st) \<and> t < length (processed_sec st)
              \<and> processed_sec st' = (processed_sec st)[t := True, i := True]
              \<and> (loaded_secs st' = loaded_secs st
                  \<or> loaded_secs st' = loaded_secs st @ [(Relo_pass, t)]))"
proof (cases "get_sec elf i")
  case (Inl e)
  with run show ?thesis by (auto simp: relo_section_def rel_target_def)
next
  case (Inr x)
  then obtain shname shdr data where sec: "get_sec elf i = Inr (shname, shdr, data)"
    by (cases x) auto
  show ?thesis
  proof (cases "sh_type shdr = SHT_REL")
    case False
    with run sec show ?thesis by (auto simp: relo_section_def rel_target_def)
  next
    case rel: True
    show ?thesis
    proof (cases "get_sec elf (sh_info shdr)")
      case (Inl e)
      with run sec rel show ?thesis by (auto simp: relo_section_def rel_target_def)
    next
      case (Inr y)
      then obtain np hp dp where tgt: "get_sec elf (sh_info shdr) = Inr (np, hp, dp)"
        by (cases y) auto
      from sec rel tgt have rt: "rel_target elf i = Some (sh_info shdr)"
        by (simp add: rel_target_def)
      from run sec rel tgt obtain insns st1 st2 r insns' st3 where
        m1: "mark_processed (sh_info shdr) st = Inr st1"
        and m2: "mark_processed i st1 = Inr st2"
        and p: "parse_relo_and_apply msz data symbols shdr insns st2 = Inr (r, insns', st3)"
        and e': "elf' = set_insns elf (sh_info shdr) insns'"
        and fin: "st' = st3
                  \<or> (\<exists>v. load_and_attach k np insns' (to_int (d_size dp))
                            (st3\<lparr>loaded_secs := loaded_secs st3 @ [(Relo_pass, sh_info shdr)]\<rparr>)
                          = Inr (v, st'))"
        by (auto simp: relo_section_def Let_def split: sum.splits prod.splits if_splits)
      from mark_processed_Inr [OF m1] mark_processed_Inr [OF m2]
      have b: "sh_info shdr < length (processed_sec st)" "i < length (processed_sec st)"
        and st2: "processed_sec st2 = (processed_sec st)[sh_info shdr := True, i := True]"
        "loaded_secs st2 = loaded_secs st"
        by auto
      from parse_relo_frame [OF p] st2
      have st3: "processed_sec st3 = (processed_sec st)[sh_info shdr := True, i := True]"
        "loaded_secs st3 = loaded_secs st" by simp_all
      from fin have "processed_sec st' = (processed_sec st)[sh_info shdr := True, i := True]
         \<and> (loaded_secs st' = loaded_secs st
             \<or> loaded_secs st' = loaded_secs st @ [(Relo_pass, sh_info shdr)])"
      proof
        assume "st' = st3"
        with st3 show ?thesis by simp
      next
        assume "\<exists>v. load_and_attach k np insns' (to_int (d_size dp))
                            (st3\<lparr>loaded_secs := loaded_secs st3 @ [(Relo_pass, sh_info shdr)]\<rparr>)
                          = Inr (v, st')"
        then obtain v where "load_and_attach k np insns' (to_int (d_size dp))
                            (st3\<lparr>loaded_secs := loaded_secs st3 @ [(Relo_pass, sh_info shdr)]\<rparr>)
                          = Inr (v, st')" ..
        from load_and_attach_frame [OF this] st3 show ?thesis by simp
      qed
      with rt b e' show ?thesis by (simp add: rel_target_set_insns)
    qed
  qed
qed


lemma relo_section_step:
  assumes run: "relo_section msz k symbols i (elf, st) = Inr (elf', st')"
  shows "\<forall>i'. rel_target elf' i' = rel_target elf i'"
    and "length (processed_sec st') = length (processed_sec st)"
    and "\<forall>j<length (processed_sec st). processed_sec st ! j \<longrightarrow> processed_sec st' ! j"
    and "\<forall>t. rel_target elf i = Some t \<longrightarrow>
           i < length (processed_sec st) \<and> t < length (processed_sec st)
           \<and> processed_sec st' ! i \<and> processed_sec st' ! t"
    and "loaded_secs st' = loaded_secs st
         \<or> (\<exists>t. rel_target elf i = Some t \<and> loaded_secs st' = loaded_secs st @ [(Relo_pass, t)])"
  using relo_section_effect [OF run]
  by (auto split: option.splits simp: nth_list_update)

lemma relo_sections_effect:
  "relo_sections msz k symbols is (elf, st) = Inr (elf', st') \<Longrightarrow>
     (\<forall>i'. rel_target elf' i' = rel_target elf i')
     \<and> length (processed_sec st') = length (processed_sec st)
     \<and> (\<forall>j<length (processed_sec st). processed_sec st ! j \<longrightarrow> processed_sec st' ! j)
     \<and> (\<forall>i\<in>set is. \<forall>t. rel_target elf i = Some t \<longrightarrow>
           i < length (processed_sec st) \<and> t < length (processed_sec st)
           \<and> processed_sec st' ! i \<and> processed_sec st' ! t)
     \<and> (\<exists>new. loaded_secs st' = loaded_secs st @ new
          \<and> (\<forall>x\<in>set new. \<exists>i\<in>set is. \<exists>t. rel_target elf i = Some t \<and> x = (Relo_pass, t))
          \<and> (distinct is
              \<and> (\<forall>i\<in>set is. \<forall>i'\<in>set is. \<forall>t.
                    rel_target elf i = Some t \<and> rel_target elf i' = Some t \<longrightarrow> i = i')
              \<longrightarrow> distinct new))"
proof (induction "is" arbitrary: elf st)
  case Nil
  then show ?case by simp
next
  case (Cons i rest)
  from Cons.prems obtain elf1 st1 where
    step: "relo_section msz k symbols i (elf, st) = Inr (elf1, st1)"
    and rest: "relo_sections msz k symbols rest (elf1, st1) = Inr (elf', st')"
    by (auto split: sum.splits)
  note s = relo_section_step [OF step]
  note ih = Cons.IH [OF rest]
  have rt: "\<And>i'. rel_target elf1 i' = rel_target elf i'" using s(1) by simp
  have c1: "\<forall>i'. rel_target elf' i' = rel_target elf i'" using ih rt by simp
  have c2: "length (processed_sec st') = length (processed_sec st)" using ih s(2) by simp
  have c3: "\<forall>j<length (processed_sec st). processed_sec st ! j \<longrightarrow> processed_sec st' ! j"
    using ih s(2,3) by simp
  have mono: "\<And>j. j < length (processed_sec st) \<Longrightarrow> processed_sec st1 ! j
                 \<Longrightarrow> processed_sec st' ! j"
    using ih s(2) by simp
  have c4: "\<forall>i'\<in>set (i # rest). \<forall>t. rel_target elf i' = Some t \<longrightarrow>
           i' < length (processed_sec st) \<and> t < length (processed_sec st)
           \<and> processed_sec st' ! i' \<and> processed_sec st' ! t"
  proof (intro ballI allI impI)
    fix i' t
    assume m: "i' \<in> set (i # rest)" and t: "rel_target elf i' = Some t"
    show "i' < length (processed_sec st) \<and> t < length (processed_sec st)
           \<and> processed_sec st' ! i' \<and> processed_sec st' ! t"
    proof (cases "i' = i")
      case True
      with s(4) t mono show ?thesis by blast
    next
      case False
      with m have "i' \<in> set rest" by simp
      with ih t rt s(2) show ?thesis by simp
    qed
  qed
  from ih obtain new where
    n1: "loaded_secs st' = loaded_secs st1 @ new"
    and n2: "\<forall>x\<in>set new. \<exists>i\<in>set rest. \<exists>t. rel_target elf i = Some t \<and> x = (Relo_pass, t)"
    and n3: "distinct rest
              \<and> (\<forall>i\<in>set rest. \<forall>i'\<in>set rest. \<forall>t.
                    rel_target elf i = Some t \<and> rel_target elf i' = Some t \<longrightarrow> i = i')
              \<longrightarrow> distinct new"
    using rt by auto
  from s(5) obtain n0 where
    m1: "loaded_secs st1 = loaded_secs st @ n0"
    and m2: "n0 = [] \<or> (\<exists>t. rel_target elf i = Some t \<and> n0 = [(Relo_pass, t)])"
    by auto
  have c5: "\<exists>new. loaded_secs st' = loaded_secs st @ new
          \<and> (\<forall>x\<in>set new. \<exists>i'\<in>set (i # rest). \<exists>t. rel_target elf i' = Some t \<and> x = (Relo_pass, t))
          \<and> (distinct (i # rest)
              \<and> (\<forall>i'\<in>set (i # rest). \<forall>i''\<in>set (i # rest). \<forall>t.
                    rel_target elf i' = Some t \<and> rel_target elf i'' = Some t \<longrightarrow> i' = i'')
              \<longrightarrow> distinct new)"
  proof (intro exI conjI impI)
    show "loaded_secs st' = loaded_secs st @ (n0 @ new)" using n1 m1 by simp
    show "\<forall>x\<in>set (n0 @ new). \<exists>i'\<in>set (i # rest). \<exists>t. rel_target elf i' = Some t \<and> x = (Relo_pass, t)"
      using n2 m2 by auto
    assume d: "distinct (i # rest)
              \<and> (\<forall>i'\<in>set (i # rest). \<forall>i''\<in>set (i # rest). \<forall>t.
                    rel_target elf i' = Some t \<and> rel_target elf i'' = Some t \<longrightarrow> i' = i'')"
    then have dn: "distinct new" using n3 by simp
    have "set n0 \<inter> set new = {}"
    proof (rule ccontr)
      assume "set n0 \<inter> set new \<noteq> {}"
      then obtain x where x0: "x \<in> set n0" and x1: "x \<in> set new" by auto
      from x0 m2 obtain t where t0: "rel_target elf i = Some t" and xt: "x = (Relo_pass, t)"
        by auto
      from x1 n2 xt obtain i' where i': "i' \<in> set rest" and t1: "rel_target elf i' = Some t"
        by auto
      from d t0 t1 i' have "i = i'" by simp
      with d i' show False by simp
    qed
    moreover have "distinct n0" using m2 by auto
    ultimately show "distinct (n0 @ new)" using dn by simp
  qed
  from c1 c2 c3 c4 c5 show ?case by blast
qed

lemma residual_section_effect:
  assumes "residual_section k elf i st = Inr st'"
  shows "processed_sec st' = processed_sec st"
    and "loaded_secs st' = loaded_secs st
         \<or> (loaded_secs st' = loaded_secs st @ [(Residual_pass, i)] \<and> \<not> processed_sec st ! i)"
  using assms
  by (auto simp: residual_section_def fetch_def
           split: if_splits sum.splits prod.splits dest!: load_and_attach_frame)

lemma residual_sections_effect:
  "residual_sections k elf js st = Inr st' \<Longrightarrow>
     processed_sec st' = processed_sec st
     \<and> (\<exists>new. loaded_secs st' = loaded_secs st @ new
          \<and> (\<forall>x\<in>set new. \<exists>j\<in>set js. x = (Residual_pass, j) \<and> \<not> processed_sec st ! j)
          \<and> (distinct js \<longrightarrow> distinct new))"
proof (induction js arbitrary: st)
  case Nil
  then show ?case by simp
next
  case (Cons j rest)
  from Cons.prems obtain st1 where
    step: "residual_section k elf j st = Inr st1"
    and rest: "residual_sections k elf rest st1 = Inr st'"
    by (auto split: sum.splits)
  note s = residual_section_effect [OF step]
  from Cons.IH [OF rest] s(1) obtain new where
    p: "processed_sec st' = processed_sec st"
    and n1: "loaded_secs st' = loaded_secs st1 @ new"
    and n2: "\<forall>x\<in>set new. \<exists>j\<in>set rest. x = (Residual_pass, j) \<and> \<not> processed_sec st ! j"
    and n3: "distinct rest \<longrightarrow> distinct new"
    by auto
  from s(2) obtain n0 where
    m1: "loaded_secs st1 = loaded_secs st @ n0"
    and m2: "n0 = [] \<or> (n0 = [(Residual_pass, j)] \<and> \<not> processed_sec st ! j)"
    by auto
  have "\<exists>new. loaded_secs st' = loaded_secs st @ new
          \<and> (\<forall>x\<in>set new. \<exists>j'\<in>set (j # rest). x = (Residual_pass, j') \<and> \<not> processed_sec st ! j')
          \<and> (distinct (j # rest) \<longrightarrow> distinct new)"
  proof (intro exI conjI impI)
    show "loaded_secs st' = loaded_secs st @ (n0 @ new)" using n1 m1 by simp
    show "\<forall>x\<in>set (n0 @ new). \<exists>j'\<in>set (j # rest). x = (Residual_pass, j') \<and> \<not> processed_sec st ! j'"
      using n2 m2 by auto
    assume d: "distinct (j # rest)"
    with n2 m2 have "set n0 \<inter> set new = {}" by auto
    moreover have "distinct n0" using m2 by auto
    ultimately show "distinct (n0 @ new)" using n3 d by simp
  qed
  with p show ?case by blast
qed


lemma distinct_map_snd:
  "distinct xs \<Longrightarrow> \<forall>x\<in>set xs. fst x = a \<Longrightarrow> distinct (map snd xs)"
  by (induction xs) (auto simp: image_iff prod_eq_iff)

subsection \<open>Claim C5\<close>

text \<open>
  Claim C5, as amended. Take a run of the second and third loop of \<^verbatim>\<open>load_bpf_file\<close>.
  The sections it hands to \<^verbatim>\<open>load_and_attach\<close> are those of the second loop followed by
  those of the third. For every relocation section \<open>i\<close> whose target section \<open>t\<close> can be
  read, both are marked processed when the run ends, whether or not the relocation
  succeeded (the marks are set before \<^verbatim>\<open>parse_relo_and_apply\<close> is called and nothing
  clears them), and the third loop loads neither of them. If no two relocation sections
  have the same target, no section is loaded twice in the run.
\<close>

theorem processed_sections_not_reloaded:
  assumes run: "load_programs msz k elf shnum fd symbols st = Inr (r, st')"
  shows "\<exists>relo resid.
           loaded_secs st' = loaded_secs st @ relo @ resid
           \<and> (\<forall>x\<in>set relo. fst x = Relo_pass) \<and> (\<forall>x\<in>set resid. fst x = Residual_pass)
           \<and> (\<forall>i t. 1 \<le> i \<and> i < shnum \<and> rel_target elf i = Some t \<longrightarrow>
                  processed_sec st' ! i \<and> processed_sec st' ! t
                  \<and> (Residual_pass, i) \<notin> set resid \<and> (Residual_pass, t) \<notin> set resid)
           \<and> ((\<forall>i i' t. 1 \<le> i \<and> i < shnum \<and> 1 \<le> i' \<and> i' < shnum
                    \<and> rel_target elf i = Some t \<and> rel_target elf i' = Some t \<longrightarrow> i = i')
               \<longrightarrow> distinct (map snd (relo @ resid)))"
proof -
  from run obtain elf1 st1 st2 where
    p2: "relo_sections msz k symbols [1..<shnum] (elf, st) = Inr (elf1, st1)"
    and p3: "residual_sections k elf1 [1..<shnum] st1 = Inr st2"
    and fin: "st' = snd (sys k (Close_fd fd) st2)"
    by (auto simp: load_programs_def Let_def split: sum.splits prod.splits)
  from fin have f: "processed_sec st' = processed_sec st2" "loaded_secs st' = loaded_secs st2"
    by (simp_all add: sys_def Let_def)
  from relo_sections_effect [OF p2] obtain relo where
    marks: "\<forall>i\<in>set [1..<shnum]. \<forall>t. rel_target elf i = Some t \<longrightarrow>
              processed_sec st1 ! i \<and> processed_sec st1 ! t"
    and r1: "loaded_secs st1 = loaded_secs st @ relo"
    and r2: "\<forall>x\<in>set relo. \<exists>i\<in>set [1..<shnum]. \<exists>t. rel_target elf i = Some t \<and> x = (Relo_pass, t)"
    and r3: "distinct [1..<shnum]
              \<and> (\<forall>i\<in>set [1..<shnum]. \<forall>i'\<in>set [1..<shnum]. \<forall>t.
                    rel_target elf i = Some t \<and> rel_target elf i' = Some t \<longrightarrow> i = i')
              \<longrightarrow> distinct relo"
    by blast
  from residual_sections_effect [OF p3] obtain resid where
    q0: "processed_sec st2 = processed_sec st1"
    and q1: "loaded_secs st2 = loaded_secs st1 @ resid"
    and q2: "\<forall>x\<in>set resid. \<exists>j\<in>set [1..<shnum]. x = (Residual_pass, j) \<and> \<not> processed_sec st1 ! j"
    and q3: "distinct [1..<shnum] \<longrightarrow> distinct resid"
    by blast
  have a1: "loaded_secs st' = loaded_secs st @ relo @ resid" using f r1 q1 by simp
  have a2: "\<forall>x\<in>set relo. fst x = Relo_pass" using r2 by auto
  have a3: "\<forall>x\<in>set resid. fst x = Residual_pass" using q2 by auto
  have a4: "\<forall>i t. 1 \<le> i \<and> i < shnum \<and> rel_target elf i = Some t \<longrightarrow>
                  processed_sec st' ! i \<and> processed_sec st' ! t
                  \<and> (Residual_pass, i) \<notin> set resid \<and> (Residual_pass, t) \<notin> set resid"
  proof (intro allI impI)
    fix i t
    assume h: "1 \<le> i \<and> i < shnum \<and> rel_target elf i = Some t"
    then have "i \<in> set [1..<shnum]" by simp
    with marks h have m: "processed_sec st1 ! i" "processed_sec st1 ! t" by blast+
    with q2 have "(Residual_pass, i) \<notin> set resid" "(Residual_pass, t) \<notin> set resid" by auto
    with m f q0 show "processed_sec st' ! i \<and> processed_sec st' ! t
                  \<and> (Residual_pass, i) \<notin> set resid \<and> (Residual_pass, t) \<notin> set resid"
      by simp
  qed
  have a5: "(\<forall>i i' t. 1 \<le> i \<and> i < shnum \<and> 1 \<le> i' \<and> i' < shnum
                    \<and> rel_target elf i = Some t \<and> rel_target elf i' = Some t \<longrightarrow> i = i')
               \<longrightarrow> distinct (map snd (relo @ resid))"
  proof
    assume inj: "\<forall>i i' t. 1 \<le> i \<and> i < shnum \<and> 1 \<le> i' \<and> i' < shnum
                    \<and> rel_target elf i = Some t \<and> rel_target elf i' = Some t \<longrightarrow> i = i'"
    then have "distinct relo" using r3 by auto
    then have d1: "distinct (map snd relo)" using a2 by (rule distinct_map_snd)
    have "distinct resid" using q3 by simp
    then have d2: "distinct (map snd resid)" using a3 by (rule distinct_map_snd)
    have "snd ` set relo \<inter> snd ` set resid = {}"
    proof (rule ccontr)
      assume "snd ` set relo \<inter> snd ` set resid \<noteq> {}"
      then obtain x y where x: "x \<in> set relo" and y: "y \<in> set resid" and e: "snd x = snd y"
        by auto
      from r2 x obtain i t where "i \<in> set [1..<shnum]" "rel_target elf i = Some t"
        "x = (Relo_pass, t)" by blast
      with marks have "processed_sec st1 ! snd x" by auto
      moreover from q2 y have "\<not> processed_sec st1 ! snd y" by auto
      ultimately show False using e by simp
    qed
    with d1 d2 show "distinct (map snd (relo @ resid))" by simp
  qed
  from a1 a2 a3 a4 a5 show ?thesis by blast
qed

theorem processed_sections_not_reloaded_witness:
  "rel_target obj_bad_opcode_and_plain 4 = Some 2
   \<and> (\<exists>st'. load_programs 20 k_good obj_bad_opcode_and_plain 8 3 (Some ex_symbols) init_state
               = Inr (0, st')
          \<and> out st' = [Invalid_relo 2 0x95]
          \<and> loaded_secs st' = [(Residual_pass, 7)]
          \<and> processed_sec st' ! 2 \<and> processed_sec st' ! 4)"
proof -
  have ev: "(case load_programs 20 k_good obj_bad_opcode_and_plain 8 3 (Some ex_symbols)
                    init_state of
               Inl f \<Rightarrow> False
             | Inr (r, st') \<Rightarrow> r = 0 \<and> out st' = [Invalid_relo 2 0x95]
                               \<and> loaded_secs st' = [(Residual_pass, 7)])"
    by code_simp
  then obtain st' where
    run: "load_programs 20 k_good obj_bad_opcode_and_plain 8 3 (Some ex_symbols) init_state
            = Inr (0, st')"
    and o: "out st' = [Invalid_relo 2 0x95]"
    and l: "loaded_secs st' = [(Residual_pass, 7)]"
    by (auto split: sum.splits)
  have rt: "rel_target obj_bad_opcode_and_plain 4 = Some 2" by code_simp
  from processed_sections_not_reloaded [OF run] obtain relo resid where
    m: "\<forall>i t. 1 \<le> i \<and> i < 8 \<and> rel_target obj_bad_opcode_and_plain i = Some t \<longrightarrow>
                  processed_sec st' ! i \<and> processed_sec st' ! t
                  \<and> (Residual_pass, i) \<notin> set resid \<and> (Residual_pass, t) \<notin> set resid"
    by blast
  from m [rule_format, of 4 2] rt
  have "processed_sec st' ! 4 \<and> processed_sec st' ! 2" by simp
  with run o l rt show ?thesis by blast
qed

text \<open>
  The claim as stated fails when two relocation sections are for the same program
  section: the second loop asks for neither mark before it loads, and the program is
  loaded twice.
\<close>

theorem loaded_twice_counterexample:
  "rel_target obj_two_rels 4 = Some 2 \<and> rel_target obj_two_rels 5 = Some 2
   \<and> loads (load_bpf_file 20 (lib_of obj_two_rels) k_good ''prog.o'' init_state)
     = [(Relo_pass, 2), (Relo_pass, 2)]
   \<and> length (submitted (load_bpf_file 20 (lib_of obj_two_rels) k_good ''prog.o'' init_state)) = 2"
  by code_simp

subsection \<open>Claim C10\<close>

lemma load_programs_result:
  "load_programs msz k elf shnum fd symbols st
     = (case relo_sections msz k symbols [1..<shnum] (elf, st) of
          Inl f \<Rightarrow> Inl f
        | Inr (elf', st1) \<Rightarrow>
            (case residual_sections k elf' [1..<shnum] st1 of
               Inl f \<Rightarrow> Inl f
             | Inr st2 \<Rightarrow> Inr (0, snd (sys k (Close_fd fd) st2))))"
  by (simp add: load_programs_def Let_def split: sum.splits prod.splits)

text \<open>
  Claim C10. When the file has been opened and the first loop has run through all
  sections without a \<^verbatim>\<open>return\<close>, what \<^verbatim>\<open>load_bpf_file\<close> returns is fixed by the second
  and third loop running to their end, and then it is 0: those loops keep nothing of
  what \<^verbatim>\<open>load_and_attach\<close> returns. So the load either returns 0 or meets undefined
  behaviour (an index outside an array, a division by zero), whatever the kernel
  answers to the submissions and to the calls of the attachment.
\<close>

theorem load_result_ignores_programs:
  assumes lib: "elf_version lib \<noteq> EV_NONE"
    and opn: "0 \<le> ret (k (trace st) (Open_rdonly path))"
    and elf: "elf_begin lib (ret (k (trace st) (Open_rdonly path))) = Some elf"
    and hdr: "e_shnum elf = Some shnum"
    and meta: "scan_sections msz k elf [1..<shnum] (None, after_open k path st)
                 = Inr (Next (symbols, st1))"
  shows "load_bpf_file msz lib k path st
           = (case relo_sections msz k symbols [1..<shnum] (elf, st1) of
                Inl f \<Rightarrow> Inl f
              | Inr (elf', st2) \<Rightarrow>
                  (case residual_sections k elf' [1..<shnum] st2 of
                     Inl f \<Rightarrow> Inl f
                   | Inr st3 \<Rightarrow>
                       Inr (0, snd (sys k (Close_fd (ret (k (trace st) (Open_rdonly path))))
                                      st3))))
         \<and> ((\<exists>f. load_bpf_file msz lib k path st = Inl f)
              \<or> (\<exists>st'. load_bpf_file msz lib k path st = Inr (0, st')))"
proof -
  have e: "load_bpf_file msz lib k path st
           = (case relo_sections msz k symbols [1..<shnum] (elf, st1) of
                Inl f \<Rightarrow> Inl f
              | Inr (elf', st2) \<Rightarrow>
                  (case residual_sections k elf' [1..<shnum] st2 of
                     Inl f \<Rightarrow> Inl f
                   | Inr st3 \<Rightarrow>
                       Inr (0, snd (sys k (Close_fd (ret (k (trace st) (Open_rdonly path))))
                                      st3))))"
    using load_bpf_file_opened [where k = k and st = st and path = path, OF lib opn elf hdr] meta
    by (simp add: load_programs_result)
  then have "(\<exists>f. load_bpf_file msz lib k path st = Inl f)
              \<or> (\<exists>st'. load_bpf_file msz lib k path st = Inr (0, st'))"
    by (auto split: sum.splits prod.splits)
  with e show ?thesis ..
qed

theorem load_result_ignores_programs_witness:
  "report (load_bpf_file 20 (lib_of obj_two_progs) k_reject ''prog.o'' init_state)
     = Some (0, [Prog_load_err 22, Prog_load_err 22])
   \<and> loads (load_bpf_file 20 (lib_of obj_two_progs) k_reject ''prog.o'' init_state)
     = [(Relo_pass, 2), (Residual_pass, 7)]
   \<and> (\<exists>st'. load_bpf_file 20 (lib_of obj_two_progs) k_reject ''prog.o'' init_state
               = Inr (0, st'))"
proof -
  let ?lib = "lib_of obj_two_progs"
  have lib: "elf_version ?lib \<noteq> EV_NONE" by (simp add: lib_of_def EV_NONE_def)
  have r: "ret (k_reject (trace init_state) (Open_rdonly ''prog.o'')) = 3"
    by (simp add: k_reject_def k_good_def init_state_def)
  have opn: "0 \<le> ret (k_reject (trace init_state) (Open_rdonly ''prog.o''))" using r by simp
  have elf: "elf_begin ?lib (ret (k_reject (trace init_state) (Open_rdonly ''prog.o'')))
               = Some obj_two_progs"
    by (simp add: lib_of_def)
  have hdr: "e_shnum obj_two_progs = Some 8" by (simp add: obj_two_progs_def elf_of_def)
  have ev: "(case scan_sections 20 k_reject obj_two_progs [1..<8]
                    (None, after_open k_reject ''prog.o'' init_state) of
               Inr (Next x) \<Rightarrow> True | _ \<Rightarrow> False)"
    by code_simp
  then obtain symbols st1 where
    meta: "scan_sections 20 k_reject obj_two_progs [1..<8]
             (None, after_open k_reject ''prog.o'' init_state) = Inr (Next (symbols, st1))"
    by (auto split: sum.splits step.splits)
  have rep: "report (load_bpf_file 20 ?lib k_reject ''prog.o'' init_state)
               = Some (0, [Prog_load_err 22, Prog_load_err 22])"
    by code_simp
  have lds: "loads (load_bpf_file 20 ?lib k_reject ''prog.o'' init_state)
               = [(Relo_pass, 2), (Residual_pass, 7)]"
    by code_simp
  from load_result_ignores_programs
         [where k = k_reject and st = init_state and path = "''prog.o''" and msz = 20,
          OF lib opn elf hdr meta, THEN conjunct2]
  have "(\<exists>f. load_bpf_file 20 ?lib k_reject ''prog.o'' init_state = Inl f)
         \<or> (\<exists>st'. load_bpf_file 20 ?lib k_reject ''prog.o'' init_state = Inr (0, st'))" .
  with rep have "\<exists>st'. load_bpf_file 20 ?lib k_reject ''prog.o'' init_state = Inr (0, st')"
    by (auto simp: report_def)
  with rep lds show ?thesis by simp
qed

section \<open>A relocation that fails, in the whole load\<close>

lemma relo_sections_append:
  "relo_sections msz k symbols (xs @ ys) es
     = (case relo_sections msz k symbols xs es of
          Inl f \<Rightarrow> Inl f
        | Inr es' \<Rightarrow> relo_sections msz k symbols ys es')"
  by (induction xs arbitrary: es) (auto split: sum.splits)

subsection \<open>Claim C2\<close>

text \<open>
  Claim C2, as amended. Let the file be open and the first loop have passed every
  section, and let the second loop have come to section \<open>i\<close>, a relocation section whose
  target section resolves. Let entry \<open>b\<close> be its first entry whose target instruction
  is not a 64-bit immediate load, the entries before it being applicable. Then
  \<^verbatim>\<open>parse_relo_and_apply\<close> applies the entries before \<open>b\<close>, prints the "invalid relo" line for
  the instruction of entry \<open>b\<close> and returns 1 without looking at a later entry, and the
  second loop goes on with section \<open>i + 1\<close>: both sections are marked processed, no call
  is made to the kernel and no program is loaded for this section. What
  \<^verbatim>\<open>load_bpf_file\<close> returns is what the rest of the second loop and the third loop lead
  to from there, which is 0 unless they meet undefined behaviour. The map index of an
  entry is not checked against the number of maps created.
\<close>

theorem bad_opcode_skips_section:
  assumes lib: "elf_version lib \<noteq> EV_NONE"
    and opn: "0 \<le> ret (k (trace st) (Open_rdonly path))"
    and elf: "elf_begin lib (ret (k (trace st) (Open_rdonly path))) = Some elf"
    and hdr: "e_shnum elf = Some shnum"
    and meta: "scan_sections msz k elf [1..<shnum] (None, after_open k path st)
                 = Inr (Next (symbols, st1))"
    and i: "1 \<le> i" "i < shnum"
    and before: "relo_sections msz k symbols [1..<i] (elf, st1) = Inr (elf2, st2)"
    and sec: "get_sec elf2 i = Inr (shname, shdr, data)"
    and ty: "sh_type shdr = SHT_REL"
    and tgt: "get_sec elf2 (sh_info shdr) = Inr (shname_prog, shdr_prog, data_prog)"
    and ins: "insns_of data_prog = Inr insn"
    and cap: "i < length (processed_sec st2)" "sh_info shdr < length (processed_sec st2)"
    and ent: "sh_entsize shdr \<noteq> 0"
    and b: "b < nrels_of shdr"
    and relb: "gelf_getrel data b = Some rel"
    and inb: "insn_idx_of rel < length insn"
    and bad: "code (insn ! insn_idx_of rel) \<noteq> BPF_LD_IMM_DW"
    and pre: "\<forall>j<b. entry_ok msz data symbols insn st2 j"
  shows "\<exists>insn'.
           relo_loop msz data symbols [0..<b] insn
             (st2\<lparr>processed_sec := (processed_sec st2)[sh_info shdr := True, i := True]\<rparr>)
           = Inr (0, insn',
                  st2\<lparr>processed_sec := (processed_sec st2)[sh_info shdr := True, i := True]\<rparr>)
         \<and> parse_relo_and_apply msz data symbols shdr insn
             (st2\<lparr>processed_sec := (processed_sec st2)[sh_info shdr := True, i := True]\<rparr>)
           = Inr (1, insn',
                  st2\<lparr>processed_sec := (processed_sec st2)[sh_info shdr := True, i := True],
                      out := out st2 @ [Invalid_relo (insn_idx_of rel)
                                          (code (insn ! insn_idx_of rel))]\<rparr>)
         \<and> relo_section msz k symbols i (elf2, st2)
           = Inr (set_insns elf2 (sh_info shdr) insn',
                  st2\<lparr>processed_sec := (processed_sec st2)[sh_info shdr := True, i := True],
                      out := out st2 @ [Invalid_relo (insn_idx_of rel)
                                          (code (insn ! insn_idx_of rel))]\<rparr>)
         \<and> load_bpf_file msz lib k path st
           = (case relo_sections msz k symbols [Suc i..<shnum]
                     (set_insns elf2 (sh_info shdr) insn',
                      st2\<lparr>processed_sec := (processed_sec st2)[sh_info shdr := True, i := True],
                          out := out st2 @ [Invalid_relo (insn_idx_of rel)
                                              (code (insn ! insn_idx_of rel))]\<rparr>) of
                Inl f \<Rightarrow> Inl f
              | Inr (elf', st4) \<Rightarrow>
                  (case residual_sections k elf' [1..<shnum] st4 of
                     Inl f \<Rightarrow> Inl f
                   | Inr st5 \<Rightarrow>
                       Inr (0, snd (sys k (Close_fd (ret (k (trace st) (Open_rdonly path))))
                                      st5))))
         \<and> ((\<exists>f. load_bpf_file msz lib k path st = Inl f)
              \<or> (\<exists>st'. load_bpf_file msz lib k path st = Inr (0, st')))"
proof -
  let ?m = "st2\<lparr>processed_sec := (processed_sec st2)[sh_info shdr := True, i := True]\<rparr>"
  let ?st3 = "?m\<lparr>out := out ?m @ [Invalid_relo (insn_idx_of rel) (code (insn ! insn_idx_of rel))]\<rparr>"
  have ok: "\<forall>j\<in>set [0..<b]. entry_ok msz data symbols insn ?m j"
    using pre entry_ok_cong [of insn insn ?m st2 msz data symbols] by simp
  from relo_loop_all_ok [OF ok] obtain insn' where
    pb: "relo_loop msz data symbols [0..<b] insn ?m = Inr (0, insn', ?m)" by blast
  note fr = relo_loop_frame [OF pb]
  have "relo_loop msz data symbols [0..<nrels_of shdr] insn ?m
          = relo_loop msz data symbols (b # [Suc b..<nrels_of shdr]) insn' ?m"
    unfolding upt_split [OF b] relo_loop_append using pb by simp
  also have "\<dots> = Inr (1, insn', ?st3)"
    using relb inb bad fr by (simp add: fetch_def)
  finally have parse: "parse_relo_and_apply msz data symbols shdr insn ?m = Inr (1, insn', ?st3)"
    using ent by (simp add: parse_relo_and_apply_def)
  have marks: "mark_processed (sh_info shdr) st2
                 = Inr (st2\<lparr>processed_sec := (processed_sec st2)[sh_info shdr := True]\<rparr>)"
    "mark_processed i (st2\<lparr>processed_sec := (processed_sec st2)[sh_info shdr := True]\<rparr>)
       = Inr ?m"
    using cap by (simp_all add: mark_processed_def store_def)
  have sect: "relo_section msz k symbols i (elf2, st2)
                = Inr (set_insns elf2 (sh_info shdr) insn', ?st3)"
    using sec ty tgt ins marks parse by (simp add: relo_section_def)
  have loop2: "relo_sections msz k symbols [1..<shnum] (elf, st1)
                 = relo_sections msz k symbols [Suc i..<shnum]
                     (set_insns elf2 (sh_info shdr) insn', ?st3)"
    unfolding upt_split_from [OF i] relo_sections_append using before sect by simp
  have whole: "load_bpf_file msz lib k path st
           = (case relo_sections msz k symbols [Suc i..<shnum]
                     (set_insns elf2 (sh_info shdr) insn', ?st3) of
                Inl f \<Rightarrow> Inl f
              | Inr (elf', st4) \<Rightarrow>
                  (case residual_sections k elf' [1..<shnum] st4 of
                     Inl f \<Rightarrow> Inl f
                   | Inr st5 \<Rightarrow>
                       Inr (0, snd (sys k (Close_fd (ret (k (trace st) (Open_rdonly path))))
                                      st5))))"
  proof -
    have "load_bpf_file msz lib k path st
            = load_programs msz k elf shnum (ret (k (trace st) (Open_rdonly path))) symbols st1"
      using load_bpf_file_opened [where k = k and st = st and path = path, OF lib opn elf hdr]
        meta
      by simp
    then show ?thesis unfolding load_programs_result loop2 .
  qed
  then have res: "(\<exists>f. load_bpf_file msz lib k path st = Inl f)
              \<or> (\<exists>st'. load_bpf_file msz lib k path st = Inr (0, st'))"
    by (auto split: sum.splits prod.splits)
  from pb parse sect whole res show ?thesis by auto
qed

theorem bad_opcode_skips_section_witness:
  "(\<exists>symbols st1 elf2 st2.
       scan_sections 20 k_good obj_partial [1..<10]
         (None, after_open k_good ''prog.o'' init_state) = Inr (Next (symbols, st1))
       \<and> relo_sections 20 k_good symbols [1..<6] (obj_partial, st1) = Inr (elf2, st2)
       \<and> loaded_secs st2 = [(Relo_pass, 2)]
       \<and> get_sec elf2 6
           = Inr (''.relkprobe/sys_read'', rels_shdr 5 3, rels_of [(0, 2), (32, 1), (16, 1)])
       \<and> entry_ok 20 (rels_of [(0, 2), (32, 1), (16, 1)]) symbols ex_prog5 st2 0
       \<and> relo_section 20 k_good symbols 6 (elf2, st2)
           = Inr (set_insns elf2 5 [ex_ld\<lparr>src_reg := BPF_PSEUDO_MAP_FD, imm := 6\<rparr>, ex_pad,
                                    ex_ld, ex_pad, ex_exit],
                  st2\<lparr>processed_sec := (processed_sec st2)[5 := True, 6 := True],
                      out := [Invalid_relo 4 0x95]\<rparr>))
   \<and> bad_entry (rels_of [(0, 2), (32, 1), (16, 1)]) ex_prog5 1
   \<and> (\<exists>st'. load_bpf_file 20 (lib_of obj_partial) k_good ''prog.o'' init_state = Inr (0, st'))
   \<and> report (load_bpf_file 20 (lib_of obj_partial) k_good ''prog.o'' init_state)
       = Some (0, [Invalid_relo 4 0x95])
   \<and> loads (load_bpf_file 20 (lib_of obj_partial) k_good ''prog.o'' init_state)
       = [(Relo_pass, 2), (Residual_pass, 9)]"
proof -
  let ?lib = "lib_of obj_partial"
  let ?data = "rels_of [(0, 2), (32, 1), (16, 1)]"
  let ?rel = "\<lparr>r_offset = 32, r_info = 1 * 2 ^ 32 + 1\<rparr>"
  let ?dp = "\<lparr>d_buf = Insns ex_prog5, d_size = 40\<rparr>"
  let ?hp = "\<lparr>sh_type = 1, sh_size = 40, sh_info = 0, sh_entsize = 0\<rparr>"
  let ?patched = "[ex_ld\<lparr>src_reg := BPF_PSEUDO_MAP_FD, imm := 6\<rparr>, ex_pad, ex_ld, ex_pad, ex_exit]"
  have lib: "elf_version ?lib \<noteq> EV_NONE" by (simp add: lib_of_def EV_NONE_def)
  have r: "ret (k_good (trace init_state) (Open_rdonly ''prog.o'')) = 3"
    by (simp add: k_good_def init_state_def)
  have opn: "0 \<le> ret (k_good (trace init_state) (Open_rdonly ''prog.o''))" using r by simp
  have elf: "elf_begin ?lib (ret (k_good (trace init_state) (Open_rdonly ''prog.o'')))
               = Some obj_partial"
    by (simp add: lib_of_def)
  have hdr: "e_shnum obj_partial = Some 10" by (simp add: obj_partial_def elf_of_def)
  define P where
    "P = (\<lambda>sy elf2 st2.
            get_sec elf2 6 = Inr (''.relkprobe/sys_read'', rels_shdr 5 3, ?data)
            \<and> get_sec elf2 5 = Inr (''kprobe/sys_read'', ?hp, ?dp)
            \<and> length (processed_sec st2) = 128
            \<and> entry_ok 20 ?data sy ex_prog5 st2 0
            \<and> out st2 = [] \<and> loaded_secs st2 = [(Relo_pass, 2)]
            \<and> relo_loop 20 ?data sy [0..<1] ex_prog5
                 (st2\<lparr>processed_sec := (processed_sec st2)[5 := True, 6 := True]\<rparr>)
               = Inr (0, ?patched,
                      st2\<lparr>processed_sec := (processed_sec st2)[5 := True, 6 := True]\<rparr>))"
  define Q where
    "Q = (\<lambda>sy st1.
            case relo_sections 20 k_good sy [1..<6] (obj_partial, st1) of
              Inr (elf2, st2) \<Rightarrow> P sy elf2 st2
            | _ \<Rightarrow> False)"
  have ev: "(case scan_sections 20 k_good obj_partial [1..<10]
                    (None, after_open k_good ''prog.o'' init_state) of
               Inr (Next (sy, st1)) \<Rightarrow> Q sy st1
             | _ \<Rightarrow> False)"
    unfolding Q_def P_def by code_simp
  then obtain sy st1 where
    meta: "scan_sections 20 k_good obj_partial [1..<10]
             (None, after_open k_good ''prog.o'' init_state) = Inr (Next (sy, st1))"
    and q: "Q sy st1"
    by (auto split: sum.splits step.splits prod.splits)
  from q obtain elf2 st2 where
    before: "relo_sections 20 k_good sy [1..<6] (obj_partial, st1) = Inr (elf2, st2)"
    and p: "P sy elf2 st2"
    unfolding Q_def by (auto split: sum.splits prod.splits)
  from p have sec: "get_sec elf2 6 = Inr (''.relkprobe/sys_read'', rels_shdr 5 3, ?data)"
    and tgt0: "get_sec elf2 5 = Inr (''kprobe/sys_read'', ?hp, ?dp)"
    and len: "length (processed_sec st2) = 128"
    and ok0: "entry_ok 20 ?data sy ex_prog5 st2 0"
    and o: "out st2 = []" and l: "loaded_secs st2 = [(Relo_pass, 2)]"
    and lp: "relo_loop 20 ?data sy [0..<1] ex_prog5
              (st2\<lparr>processed_sec := (processed_sec st2)[5 := True, 6 := True]\<rparr>)
            = Inr (0, ?patched,
                   st2\<lparr>processed_sec := (processed_sec st2)[5 := True, 6 := True]\<rparr>)"
    unfolding P_def by blast+
  have i1: "(1::nat) \<le> 6" and i2: "(6::nat) < 10" by simp_all
  have i5: "sh_info (rels_shdr 5 3) = 5" by (simp add: rels_shdr_def)
  have ty: "sh_type (rels_shdr 5 3) = SHT_REL" by code_simp
  have tgt: "get_sec elf2 (sh_info (rels_shdr 5 3)) = Inr (''kprobe/sys_read'', ?hp, ?dp)"
    using tgt0 i5 by simp
  have ins: "insns_of ?dp = Inr ex_prog5" by (simp add: insns_of_def)
  have cap: "6 < length (processed_sec st2)" "sh_info (rels_shdr 5 3) < length (processed_sec st2)"
    using len i5 by simp_all
  have ent: "sh_entsize (rels_shdr 5 3) \<noteq> 0" by (simp add: rels_shdr_def)
  have b: "(1::nat) < nrels_of (rels_shdr 5 3)" by code_simp
  have relb: "gelf_getrel ?data 1 = Some ?rel" by code_simp
  have idx: "insn_idx_of ?rel = 4" by code_simp
  have inb: "insn_idx_of ?rel < length ex_prog5" using idx by (simp add: ex_prog5_def)
  have c: "code (ex_prog5 ! insn_idx_of ?rel) = 0x95"
    using idx by (simp add: ex_prog5_def ex_exit_def)
  have bad: "code (ex_prog5 ! insn_idx_of ?rel) \<noteq> BPF_LD_IMM_DW"
    using c by (simp add: BPF_LD_IMM_DW_def)
  have be: "bad_entry ?data ex_prog5 1" by code_simp
  have pre: "\<forall>j<1. entry_ok 20 ?data sy ex_prog5 st2 j" using ok0 by simp
  have rep: "report (load_bpf_file 20 ?lib k_good ''prog.o'' init_state)
               = Some (0, [Invalid_relo 4 0x95])"
    by code_simp
  have lds: "loads (load_bpf_file 20 ?lib k_good ''prog.o'' init_state)
               = [(Relo_pass, 2), (Residual_pass, 9)]"
    by code_simp
  from bad_opcode_skips_section
         [where k = k_good and st = init_state and path = "''prog.o''" and msz = 20 and i = 6
            and b = 1,
          OF lib opn elf hdr meta i1 i2 before sec ty tgt ins cap ent b relb inb bad pre]
  obtain insn' where
    pb: "relo_loop 20 ?data sy [0..<1] ex_prog5
           (st2\<lparr>processed_sec := (processed_sec st2)[sh_info (rels_shdr 5 3) := True, 6 := True]\<rparr>)
         = Inr (0, insn',
                st2\<lparr>processed_sec := (processed_sec st2)[sh_info (rels_shdr 5 3) := True, 6 := True]\<rparr>)"
    and sect: "relo_section 20 k_good sy 6 (elf2, st2)
           = Inr (set_insns elf2 (sh_info (rels_shdr 5 3)) insn',
                  st2\<lparr>processed_sec := (processed_sec st2)[sh_info (rels_shdr 5 3) := True, 6 := True],
                      out := out st2 @ [Invalid_relo (insn_idx_of ?rel)
                                          (code (ex_prog5 ! insn_idx_of ?rel))]\<rparr>)"
    and res: "(\<exists>f. load_bpf_file 20 ?lib k_good ''prog.o'' init_state = Inl f)
              \<or> (\<exists>st'. load_bpf_file 20 ?lib k_good ''prog.o'' init_state = Inr (0, st'))"
    by blast
  from trans [OF pb [unfolded i5, symmetric] lp] have ip: "insn' = ?patched" by simp
  have c95: "code (ex_prog5 ! 4) = 0x95" by (simp add: ex_prog5_def ex_exit_def)
  from sect [unfolded i5 idx c95 o ip] have sect':
    "relo_section 20 k_good sy 6 (elf2, st2)
       = Inr (set_insns elf2 5 ?patched,
              st2\<lparr>processed_sec := (processed_sec st2)[5 := True, 6 := True],
                  out := [Invalid_relo 4 0x95]\<rparr>)"
    by simp
  from res rep have fin: "\<exists>st'. load_bpf_file 20 ?lib k_good ''prog.o'' init_state = Inr (0, st')"
    by (auto simp: report_def)
  from meta before l sec ok0 sect' have
    "\<exists>symbols st1 elf2 st2.
       scan_sections 20 k_good obj_partial [1..<10]
         (None, after_open k_good ''prog.o'' init_state) = Inr (Next (symbols, st1))
       \<and> relo_sections 20 k_good symbols [1..<6] (obj_partial, st1) = Inr (elf2, st2)
       \<and> loaded_secs st2 = [(Relo_pass, 2)]
       \<and> get_sec elf2 6 = Inr (''.relkprobe/sys_read'', rels_shdr 5 3, ?data)
       \<and> entry_ok 20 ?data symbols ex_prog5 st2 0
       \<and> relo_section 20 k_good symbols 6 (elf2, st2)
           = Inr (set_insns elf2 5 ?patched,
                  st2\<lparr>processed_sec := (processed_sec st2)[5 := True, 6 := True],
                      out := [Invalid_relo 4 0x95]\<rparr>)"
    by blast
  with be fin rep lds show ?thesis by (intro conjI)
qed

text \<open>
  The claim as stated fails for the map index. In this object one map is created and
  the relocation computes map index 1; no error is raised, the instruction receives the
  content of the unused slot 1 of \<^verbatim>\<open>map_fd\<close>, and the program is submitted.
\<close>

theorem unchecked_map_index_counterexample:
  "map_idx_of 20 \<lparr>st_name = 7, st_value = 20\<rparr> = 1
   \<and> created (load_bpf_file 20 (lib_of obj_map_index_1) k_good ''prog.o'' init_state)
       = [Bpf_create_map 1 4 8 10 0]
   \<and> report (load_bpf_file 20 (lib_of obj_map_index_1) k_good ''prog.o'' init_state)
       = Some (0, [])
   \<and> submitted (load_bpf_file 20 (lib_of obj_map_index_1) k_good ''prog.o'' init_state)
       = [[ex_ld\<lparr>src_reg := 1, imm := 0\<rparr>, ex_pad, ex_exit]]"
  by code_simp

end
